theory Spec2Isabelle
  imports Main "HOL-Library.Word" "HOL-Library.DAList"
begin

unbundle bit_operations_syntax

section \<open>Bytes, writers and readers\<close>

text \<open>
  A Go \<^verbatim>\<open>byte\<close> is an 8-bit word and a \<^verbatim>\<open>uint32\<close> a 32-bit word. An
  \<^verbatim>\<open>io.Writer\<close> is an interface: the model passes its \<^verbatim>\<open>Write\<close> method as a
  function on the state of the sink. \<^verbatim>\<open>Write\<close> returns the error (if any) and the new
  state; the byte count it also returns is ignored by every caller in this package. The
  errors of a sink are its messages.
\<close>

type_synonym byte = "8 word"

type_synonym 's Writer = "'s \<Rightarrow> byte list \<Rightarrow> string option \<times> 's"

text \<open>The in-memory sink (\<^verbatim>\<open>bytes.Buffer\<close>): every write appends and succeeds.\<close>

definition buffer_Write :: "(byte list) Writer" where
  "buffer_Write buf p = (None, buf @ p)"

text \<open>
  An \<^verbatim>\<open>io.Reader\<close> over a finite stream is the list of the bytes still to come.
  \<^verbatim>\<open>io.ReadFull(r, buf)\<close> with \<^verbatim>\<open>len(buf) = n\<close> takes exactly \<open>n\<close> bytes, or
  drains the stream and fails: with \<^verbatim>\<open>io.EOF\<close> when nothing was read, with
  \<^verbatim>\<open>io.ErrUnexpectedEOF\<close> when some bytes but fewer than \<open>n\<close> were.
\<close>

datatype io_error = EOF | ErrUnexpectedEOF

definition ReadFull :: "byte list \<Rightarrow> nat \<Rightarrow> (io_error + byte list) \<times> byte list" where
  "ReadFull r n =
     (if n \<le> length r then (Inr (take n r), drop n r)
      else (Inl (if r = [] then EOF else ErrUnexpectedEOF), []))"

text \<open>\<^verbatim>\<open>binary.BigEndian.PutUint32\<close> and \<^verbatim>\<open>binary.BigEndian.Uint32\<close>.\<close>

definition PutUint32 :: "32 word \<Rightarrow> byte list" where
  "PutUint32 v = [ucast (drop_bit 24 v), ucast (drop_bit 16 v), ucast (drop_bit 8 v), ucast v]"

definition Uint32 :: "byte list \<Rightarrow> 32 word" where
  "Uint32 b = ucast (b ! 3) OR push_bit 8 (ucast (b ! 2)) OR push_bit 16 (ucast (b ! 1))
                OR push_bit 24 (ucast (b ! 0))"

section \<open>The buffer pool (internal/shared/pool/buffer_pool.go)\<close>

definition SizeSmall :: nat where "SizeSmall = 4 * 1024"
definition SizeMedium :: nat where "SizeMedium = 32 * 1024"
definition SizeLarge :: nat where "SizeLarge = 256 * 1024"

text \<open>
  A \<^verbatim>\<open>*[]byte\<close> handed out by the pool is known by the capacity of its backing array;
  \<^verbatim>\<open>Put\<close> looks at nothing else. Each \<^verbatim>\<open>sync.Pool\<close> only ever holds buffers of its
  own size class (its \<^verbatim>\<open>New\<close> makes that size and \<^verbatim>\<open>Put\<close> routes by exact capacity),
  so a pool is the number of idle buffers it holds. \<open>made\<close> logs the sizes of the byte
  slices allocated with \<^verbatim>\<open>make\<close>, newest first: by a pool's \<^verbatim>\<open>New\<close> when the pool is
  empty, and by the frame decoder for payloads too large for the pool.
\<close>

datatype buffer = Buffer (cap: nat)

record BufferPool =
  small :: nat
  medium :: nat
  large :: nat
  made :: "nat list"

definition NewBufferPool :: BufferPool where
  "NewBufferPool = \<lparr>small = 0, medium = 0, large = 0, made = []\<rparr>"

definition BufferPool_Get :: "BufferPool \<Rightarrow> nat \<Rightarrow> buffer \<times> BufferPool" where
  "BufferPool_Get p sz =
     (if sz \<le> SizeSmall then
        (Buffer SizeSmall,
         if 0 < small p then p\<lparr>small := small p - 1\<rparr> else p\<lparr>made := SizeSmall # made p\<rparr>)
      else if sz \<le> SizeMedium then
        (Buffer SizeMedium,
         if 0 < medium p then p\<lparr>medium := medium p - 1\<rparr> else p\<lparr>made := SizeMedium # made p\<rparr>)
      else
        (Buffer SizeLarge,
         if 0 < large p then p\<lparr>large := large p - 1\<rparr> else p\<lparr>made := SizeLarge # made p\<rparr>))"

definition BufferPool_Put :: "BufferPool \<Rightarrow> buffer option \<Rightarrow> BufferPool" where
  "BufferPool_Put p buf =
     (case buf of
        None \<Rightarrow> p
      | Some b \<Rightarrow>
          (let sz = cap b in
           if sz = SizeSmall then p\<lparr>small := small p + 1\<rparr>
           else if sz = SizeMedium then p\<lparr>medium := medium p + 1\<rparr>
           else if sz = SizeLarge then p\<lparr>large := large p + 1\<rparr>
           else p))"

text \<open>The package-level wrappers act on the one global pool, which the model threads.\<close>

definition GetBuffer :: "BufferPool \<Rightarrow> nat \<Rightarrow> buffer \<times> BufferPool" where
  "GetBuffer globalBufferPool sz = BufferPool_Get globalBufferPool sz"

definition PutBuffer :: "BufferPool \<Rightarrow> buffer option \<Rightarrow> BufferPool" where
  "PutBuffer globalBufferPool buf = BufferPool_Put globalBufferPool buf"

text \<open>The number of buffers lying idle in the pool, over the three classes.\<close>

definition idle :: "BufferPool \<Rightarrow> nat" where
  "idle p = small p + medium p + large p"

section \<open>The frame codec\<close>

definition FrameHeaderSize :: nat where "FrameHeaderSize = 5"
definition MaxFrameSize :: nat where "MaxFrameSize = 10 * 1024 * 1024"

text \<open>
  \<^verbatim>\<open>Payload\<close> is a slice: \<open>None\<close> is the nil slice, whose length is 0.
  \<^verbatim>\<open>poolBuffer\<close> is the handle of the pooled buffer behind the payload, or nil.
\<close>

record Frame =
  Type :: byte
  Payload :: "byte list option"
  poolBuffer :: "buffer option"

definition slice_len :: "byte list option \<Rightarrow> nat" where
  "slice_len s = (case s of None \<Rightarrow> 0 | Some bs \<Rightarrow> length bs)"

definition slice_bytes :: "byte list option \<Rightarrow> byte list" where
  "slice_bytes s = (case s of None \<Rightarrow> [] | Some bs \<Rightarrow> bs)"

definition NewFrame :: "byte \<Rightarrow> byte list option \<Rightarrow> Frame" where
  "NewFrame frameType payload = \<lparr>Type = frameType, Payload = payload, poolBuffer = None\<rparr>"

datatype error =
    PayloadTooLarge nat
  | FailedWriteLength string
  | FailedWriteType string
  | FailedWritePayload string
  | FailedReadHeader io_error
  | FailedReadPayload io_error
  | WriterClosed

definition WriteFrame :: "'s Writer \<Rightarrow> 's \<Rightarrow> Frame \<Rightarrow> error option \<times> 's" where
  "WriteFrame Write w frame =
     (let payloadLen = slice_len (Payload frame) in
      if MaxFrameSize < payloadLen then (Some (PayloadTooLarge payloadLen), w)
      else
        (let lengthBuf = PutUint32 (word_of_nat payloadLen) in
         case Write w lengthBuf of
           (Some err, w1) \<Rightarrow> (Some (FailedWriteLength err), w1)
         | (None, w1) \<Rightarrow>
             (case Write w1 [Type frame] of
                (Some err, w2) \<Rightarrow> (Some (FailedWriteType err), w2)
              | (None, w2) \<Rightarrow>
                  if 0 < payloadLen then
                    (case Write w2 (slice_bytes (Payload frame)) of
                       (Some err, w3) \<Rightarrow> (Some (FailedWritePayload err), w3)
                     | (None, w3) \<Rightarrow> (None, w3))
                  else (None, w2))))"

text \<open>
  \<^verbatim>\<open>ReadFrame\<close> returns the frame or the error, the pool after the call and what is
  left of the stream. The length is compared as a \<^verbatim>\<open>uint32\<close>, as in the source, and
  only then converted.
\<close>

definition ReadFrame :: "BufferPool \<Rightarrow> byte list \<Rightarrow> (error + Frame) \<times> BufferPool \<times> byte list" where
  "ReadFrame pool r =
     (case ReadFull r FrameHeaderSize of
        (Inl err, r1) \<Rightarrow> (Inl (FailedReadHeader err), pool, r1)
      | (Inr header, r1) \<Rightarrow>
          (let payloadLen = Uint32 (take 4 header) in
           if (word_of_nat MaxFrameSize :: 32 word) < payloadLen
           then (Inl (PayloadTooLarge (unat payloadLen)), pool, r1)
           else
             (let frameType = header ! 4 in
              if 0 < payloadLen then
                (if (word_of_nat SizeLarge :: 32 word) < payloadLen then
                   (let pool1 = pool\<lparr>made := unat payloadLen # made pool\<rparr> in
                    case ReadFull r1 (unat payloadLen) of
                      (Inl err, r2) \<Rightarrow> (Inl (FailedReadPayload err), pool1, r2)
                    | (Inr payload, r2) \<Rightarrow>
                        (Inr \<lparr>Type = frameType, Payload = Some payload, poolBuffer = None\<rparr>,
                         pool1, r2))
                 else
                   (case GetBuffer pool (unat payloadLen) of
                      (poolBuf, pool1) \<Rightarrow>
                        (case ReadFull r1 (unat payloadLen) of
                           (Inl err, r2) \<Rightarrow>
                             (Inl (FailedReadPayload err), PutBuffer pool1 (Some poolBuf), r2)
                         | (Inr payload, r2) \<Rightarrow>
                             (Inr \<lparr>Type = frameType, Payload = Some payload,
                                   poolBuffer = Some poolBuf\<rparr>,
                              pool1, r2))))
              else
                (Inr \<lparr>Type = frameType, Payload = None, poolBuffer = None\<rparr>, pool, r1))))"

definition Release :: "Frame \<Rightarrow> BufferPool \<Rightarrow> Frame \<times> BufferPool" where
  "Release f pool =
     (case poolBuffer f of
        Some b \<Rightarrow> (f\<lparr>poolBuffer := None, Payload := None\<rparr>, PutBuffer pool (Some b))
      | None \<Rightarrow> (f, pool))"

text \<open>The bytes \<^verbatim>\<open>WriteFrame\<close> puts on the wire for a frame that passes the size check.\<close>

definition wire :: "byte \<Rightarrow> byte list \<Rightarrow> byte list" where
  "wire t p = PutUint32 (word_of_nat (length p)) @ [t] @ p"

text \<open>The payload length that the first four bytes of a stream declare.\<close>

definition declared :: "byte list \<Rightarrow> nat" where
  "declared r = unat (Uint32 (take 4 r))"

section \<open>Identifiers and subdomains (internal/shared/utils)\<close>

text \<open>\<^verbatim>\<open>hex.EncodeToString\<close>: two characters of the lowercase table for each byte.\<close>

definition hextable :: string where
  "hextable = ''0123456789abcdef''"

definition EncodeToString :: "byte list \<Rightarrow> string" where
  "EncodeToString src =
     concat (map (\<lambda>v. [hextable ! unat (drop_bit 4 v), hextable ! unat (v AND 15)]) src)"

text \<open>
  \<^verbatim>\<open>crypto/rand.Read(b)\<close> either fails or fills the whole of \<open>b\<close>: the outcome of a read
  is \<open>None\<close> for the failure, or the function giving the byte drawn for each index.
  \<^verbatim>\<open>time.Now().String()\<close> is whatever text the clock prints, a parameter.
\<close>

type_synonym entropy = "(nat \<Rightarrow> byte) option"

definition rand_Read :: "entropy \<Rightarrow> nat \<Rightarrow> byte list option" where
  "rand_Read e n = (case e of None \<Rightarrow> None | Some draw \<Rightarrow> Some (map draw [0..<n]))"

definition generateFallbackID :: "string \<Rightarrow> string" where
  "generateFallbackID now_String = EncodeToString (map of_char now_String)"

definition GenerateID :: "entropy \<Rightarrow> string \<Rightarrow> string" where
  "GenerateID e now_String =
     (case rand_Read e 16 of
        None \<Rightarrow> generateFallbackID now_String
      | Some b \<Rightarrow> EncodeToString b)"

definition GenerateShortID :: "entropy \<Rightarrow> string \<Rightarrow> string" where
  "GenerateShortID e now_String =
     (case rand_Read e 4 of
        None \<Rightarrow> take 8 (generateFallbackID now_String)
      | Some b \<Rightarrow> EncodeToString b)"

definition SubdomainChars :: string where
  "SubdomainChars = ''abcdefghijklmnopqrstuvwxyz0123456789''"

definition DefaultSubdomainLength :: int where
  "DefaultSubdomainLength = 6"

text \<open>
  The successive calls of \<^verbatim>\<open>rand.Int(rand.Reader, max)\<close> are a stream of outcomes, read
  at a position that each call advances: \<open>None\<close> is an error, \<open>Some raw\<close> a draw, which
  \<^verbatim>\<open>rand.Int\<close> delivers in the range \<open>[0, max)\<close>.
\<close>

type_synonym rng = "nat \<Rightarrow> nat option"

definition rand_Int :: "rng \<Rightarrow> nat \<Rightarrow> nat \<Rightarrow> nat option" where
  "rand_Int g pos mx = (case g pos of None \<Rightarrow> None | Some raw \<Rightarrow> Some (raw mod mx))"

text \<open>The loop of \<^verbatim>\<open>GenerateSubdomain\<close>: \<open>i\<close> is the index being filled, \<open>k\<close> what is left.\<close>

primrec GenerateSubdomain_loop :: "rng \<Rightarrow> nat \<Rightarrow> nat \<Rightarrow> nat \<Rightarrow> string" where
  "GenerateSubdomain_loop g pos i 0 = []"
| "GenerateSubdomain_loop g pos i (Suc k) =
     (case rand_Int g pos (length SubdomainChars) of
        None \<Rightarrow> SubdomainChars ! (i mod length SubdomainChars)
      | Some num \<Rightarrow> SubdomainChars ! num)
     # GenerateSubdomain_loop g (Suc pos) (Suc i) k"

definition GenerateSubdomain :: "rng \<Rightarrow> nat \<Rightarrow> int \<Rightarrow> string \<times> nat" where
  "GenerateSubdomain g pos len =
     (let len' = (if len \<le> 0 then DefaultSubdomainLength else len) in
      (GenerateSubdomain_loop g pos 0 (nat len'), pos + nat len'))"

text \<open>
  The regular expressions \<^verbatim>\<open>subdomainRegex\<close> needs: a character class, a sequence and a
  bounded repetition. \<open>rmatch r s\<close> lists what can be left of \<open>s\<close> after a prefix of it
  matched \<open>r\<close>; the pattern is anchored at both ends, so \<^verbatim>\<open>MatchString\<close> asks for a match
  that leaves nothing.
\<close>

datatype regex = Class "char \<Rightarrow> bool" | Seq regex regex | Repeat regex nat nat

primrec rmatch :: "regex \<Rightarrow> string \<Rightarrow> string list" where
  "rmatch (Class p) = (\<lambda>s. case s of [] \<Rightarrow> [] | c # t \<Rightarrow> if p c then [t] else [])"
| "rmatch (Seq a b) = (\<lambda>s. concat (map (rmatch b) (rmatch a s)))"
| "rmatch (Repeat a lo hi) =
     (\<lambda>s. concat (map (\<lambda>n. ((\<lambda>ss. concat (map (rmatch a) ss)) ^^ n) [s]) [lo..<Suc hi]))"

definition MatchString :: "regex \<Rightarrow> string \<Rightarrow> bool" where
  "MatchString r s = ([] \<in> set (rmatch r s))"

definition lower_or_digit :: "char \<Rightarrow> bool" where
  "lower_or_digit c =
     ((97 \<le> (of_char c :: nat) \<and> (of_char c :: nat) \<le> 122)
      \<or> (48 \<le> (of_char c :: nat) \<and> (of_char c :: nat) \<le> 57))"

definition lower_digit_or_dash :: "char \<Rightarrow> bool" where
  "lower_digit_or_dash c = (lower_or_digit c \<or> c = CHR ''-'')"

definition subdomainRegex :: regex where
  "subdomainRegex =
     Seq (Class lower_or_digit) (Seq (Repeat (Class lower_digit_or_dash) 1 61) (Class lower_or_digit))"

definition ValidateSubdomain :: "string \<Rightarrow> bool" where
  "ValidateSubdomain subdomain =
     (if length subdomain < 3 \<or> 63 < length subdomain then False
      else MatchString subdomainRegex subdomain)"

definition reserved :: "(string \<times> bool) list" where
  "reserved = [(''www'', True), (''api'', True), (''admin'', True), (''app'', True),
     (''mail'', True), (''ftp'', True), (''blog'', True), (''shop'', True), (''status'', True),
     (''health'', True), (''test'', True), (''dev'', True), (''staging'', True)]"

definition IsReserved :: "string \<Rightarrow> bool" where
  "IsReserved subdomain = (case map_of reserved subdomain of None \<Rightarrow> False | Some b \<Rightarrow> b)"

section \<open>The tunnel registry (internal/server/tunnel)\<close>

datatype tunnel_error =
    ErrConnectionClosed
  | ErrSendTimeout
  | ErrTunnelNotFound
  | ErrSubdomainTaken
  | ErrInvalidSubdomain
  | ErrReservedSubdomain

text \<open>
  A \<^verbatim>\<open>time.Time\<close> is a number of nanoseconds and a \<^verbatim>\<open>time.Duration\<close> is a signed
  64-bit number of nanoseconds. \<^verbatim>\<open>time.Since(t)\<close> is \<^verbatim>\<open>time.Now().Sub(t)\<close>, which
  saturates at the largest and smallest duration.
\<close>

definition maxDuration :: int where "maxDuration = 2 ^ 63 - 1"
definition minDuration :: int where "minDuration = - (2 ^ 63)"

definition time_Since :: "int \<Rightarrow> int \<Rightarrow> int" where
  "time_Since now t =
     (let d = now - t in
      if maxDuration < d then maxDuration else if d < minDuration then minDuration else d)"

text \<open>
  Of a \<^verbatim>\<open>Connection\<close> the registry reads and writes the subdomain, the time of the last
  activity and the closed flag. \<^verbatim>\<open>Close\<close> also closes the two channels and the
  WebSocket, which exist exactly as long as the flag is unset. Every binding of the
  registry owns the connection \<^verbatim>\<open>Register\<close> made for it, so the map holds the
  connections themselves.
\<close>

record Connection =
  Subdomain :: string
  LastActive :: int
  closed :: bool

definition NewConnection :: "string \<Rightarrow> int \<Rightarrow> Connection" where
  "NewConnection subdomain now = \<lparr>Subdomain = subdomain, LastActive = now, closed = False\<rparr>"

definition UpdateActivity :: "Connection \<Rightarrow> int \<Rightarrow> Connection" where
  "UpdateActivity c now = c\<lparr>LastActive := now\<rparr>"

definition IsAlive :: "Connection \<Rightarrow> int \<Rightarrow> int \<Rightarrow> bool" where
  "IsAlive c now timeout = (time_Since now (LastActive c) < timeout)"

definition Connection_Close :: "Connection \<Rightarrow> Connection" where
  "Connection_Close c = (if closed c then c else c\<lparr>closed := True\<rparr>)"

text \<open>
  A Go map has one entry for a key and no order: it is a list of entries with distinct
  keys, and a \<^verbatim>\<open>range\<close> over it visits the entries in the order of the list, one of the
  orders Go may choose. Reading \<^verbatim>\<open>m.used[k]\<close> for a missing key gives \<^verbatim>\<open>false\<close>.
\<close>

record Manager =
  tunnels :: "(string, Connection) alist"
  used :: "(string, bool) alist"

definition NewManager :: Manager where
  "NewManager = \<lparr>tunnels = DAList.empty, used = DAList.empty\<rparr>"

definition is_used :: "Manager \<Rightarrow> string \<Rightarrow> bool" where
  "is_used m subdomain = (case DAList.lookup (used m) subdomain of None \<Rightarrow> False | Some b \<Rightarrow> b)"

text \<open>The loop of \<^verbatim>\<open>generateUniqueSubdomain\<close>, counted by the attempts that are left.\<close>

fun generateUniqueSubdomain_loop :: "Manager \<Rightarrow> rng \<Rightarrow> nat \<Rightarrow> nat \<Rightarrow> string \<times> nat" where
  "generateUniqueSubdomain_loop m g pos 0 = GenerateSubdomain g pos 8"
| "generateUniqueSubdomain_loop m g pos (Suc k) =
     (case GenerateSubdomain g pos 6 of
        (subdomain, pos') \<Rightarrow>
          if \<not> is_used m subdomain \<and> \<not> IsReserved subdomain then (subdomain, pos')
          else generateUniqueSubdomain_loop m g pos' k)"

definition maxAttempts :: nat where "maxAttempts = 10"

definition generateUniqueSubdomain :: "Manager \<Rightarrow> rng \<Rightarrow> nat \<Rightarrow> string \<times> nat" where
  "generateUniqueSubdomain m g pos = generateUniqueSubdomain_loop m g pos maxAttempts"

text \<open>
  \<^verbatim>\<open>Register\<close> reads the random stream \<open>g\<close> from position \<open>pos\<close> and the clock \<open>now\<close>
  (for the new connection), and returns the error or the subdomain, the registry and the
  new position of the stream. The write pump it starts runs beside the registry and is not
  part of this model.
\<close>

definition Register ::
  "rng \<Rightarrow> nat \<Rightarrow> int \<Rightarrow> Manager \<Rightarrow> string \<Rightarrow> (tunnel_error + string) \<times> Manager \<times> nat" where
  "Register g pos now m customSubdomain =
     (case (if customSubdomain \<noteq> [] then
              (if \<not> ValidateSubdomain customSubdomain then (Inl ErrInvalidSubdomain, pos)
               else if IsReserved customSubdomain then (Inl ErrReservedSubdomain, pos)
               else if is_used m customSubdomain then (Inl ErrSubdomainTaken, pos)
               else (Inr customSubdomain, pos))
            else (case generateUniqueSubdomain m g pos of
                    (subdomain, pos') \<Rightarrow> (Inr subdomain, pos')))
      of
        (Inl err, pos') \<Rightarrow> (Inl err, m, pos')
      | (Inr subdomain, pos') \<Rightarrow>
          (Inr subdomain,
           m\<lparr>tunnels := DAList.update subdomain (NewConnection subdomain now) (tunnels m),
             used := DAList.update subdomain True (used m)\<rparr>,
           pos'))"

text \<open>
  The operations that close connections return, besides the registry, the connections
  they closed, as \<^verbatim>\<open>Close\<close> left them.
\<close>

definition Unregister :: "Manager \<Rightarrow> string \<Rightarrow> Manager \<times> Connection list" where
  "Unregister m subdomain =
     (case DAList.lookup (tunnels m) subdomain of
        Some tc \<Rightarrow>
          (m\<lparr>tunnels := DAList.delete subdomain (tunnels m),
             used := DAList.delete subdomain (used m)\<rparr>,
           [Connection_Close tc])
      | None \<Rightarrow> (m, []))"

definition Get :: "Manager \<Rightarrow> string \<Rightarrow> Connection option" where
  "Get m subdomain = DAList.lookup (tunnels m) subdomain"

definition List :: "Manager \<Rightarrow> Connection list" where
  "List m = map snd (DAList.impl_of (tunnels m))"

definition Count :: "Manager \<Rightarrow> nat" where
  "Count m = length (DAList.impl_of (tunnels m))"

text \<open>
  \<^verbatim>\<open>CleanupStale\<close> reads the clock once for each connection it examines: \<open>now s\<close> is
  the reading taken for the connection bound to \<open>s\<close>. The first loop collects the stale
  subdomains, the second removes them.
\<close>

definition CleanupStale_remove ::
  "string \<Rightarrow> Manager \<times> Connection list \<Rightarrow> Manager \<times> Connection list" where
  "CleanupStale_remove subdomain st =
     (case st of
        (m, closed_conns) \<Rightarrow>
          (case DAList.lookup (tunnels m) subdomain of
             Some tc \<Rightarrow>
               (m\<lparr>tunnels := DAList.delete subdomain (tunnels m),
                  used := DAList.delete subdomain (used m)\<rparr>,
                closed_conns @ [Connection_Close tc])
           | None \<Rightarrow> (m, closed_conns)))"

definition staleSubdomains :: "(string \<Rightarrow> int) \<Rightarrow> int \<Rightarrow> Manager \<Rightarrow> string list" where
  "staleSubdomains now timeout m =
     map fst (filter (\<lambda>(subdomain, tc). \<not> IsAlive tc (now subdomain) timeout)
                (DAList.impl_of (tunnels m)))"

definition CleanupStale ::
  "(string \<Rightarrow> int) \<Rightarrow> int \<Rightarrow> Manager \<Rightarrow> nat \<times> Manager \<times> Connection list" where
  "CleanupStale now timeout m =
     (case fold CleanupStale_remove (staleSubdomains now timeout m) (m, []) of
        (m', closed_conns) \<Rightarrow> (length (staleSubdomains now timeout m), m', closed_conns))"

definition Shutdown :: "Manager \<Rightarrow> Manager \<times> Connection list" where
  "Shutdown m = (NewManager, map (\<lambda>(subdomain, tc). Connection_Close tc) (DAList.impl_of (tunnels m)))"

text \<open>
  The registry is in step when the subdomains marked as used are exactly the bound ones,
  and well named when every subdomain marked as used passes the syntax check and is not
  reserved.
\<close>

definition in_step :: "Manager \<Rightarrow> bool" where
  "in_step m =
     (set (map fst (filter snd (DAList.impl_of (used m))))
        = set (map fst (DAList.impl_of (tunnels m))))"

definition well_named :: "Manager \<Rightarrow> bool" where
  "well_named m =
     list_all (\<lambda>(s, b). b \<longrightarrow> ValidateSubdomain s \<and> \<not> IsReserved s) (DAList.impl_of (used m))"

section \<open>The response handler of the proxy (package proxy)\<close>

record HTTPResponse =
  StatusCode :: int
  Status :: string
  Headers :: "(string \<times> string list) list"
  Body :: "byte list"

text \<open>
  A buffered channel is its capacity, the values waiting in it (oldest first) and whether
  it was closed. A pending entry holds the channel \<^verbatim>\<open>CreateResponseChan\<close> made with
  capacity 1. The map holds pointers to entries, and \<^verbatim>\<open>SendResponse\<close> tests the
  pointer it reads: \<open>None\<close> as a value of the map is the nil pointer.
\<close>

record 'a chan =
  chan_cap :: nat
  chan_buf :: "'a list"
  chan_closed :: bool

record responseChanEntry =
  ch :: "HTTPResponse chan"
  createdAt :: int

record ResponseHandler =
  channels :: "(string, responseChanEntry option) alist"

definition NewResponseHandler :: ResponseHandler where
  "NewResponseHandler = \<lparr>channels = DAList.empty\<rparr>"

definition CreateResponseChan :: "ResponseHandler \<Rightarrow> string \<Rightarrow> int \<Rightarrow> ResponseHandler" where
  "CreateResponseChan h requestID now =
     h\<lparr>channels :=
         DAList.update requestID
           (Some \<lparr>ch = \<lparr>chan_cap = 1, chan_buf = [], chan_closed = False\<rparr>, createdAt = now\<rparr>)
           (channels h)\<rparr>"

definition GetPendingCount :: "ResponseHandler \<Rightarrow> nat" where
  "GetPendingCount h = length (DAList.impl_of (channels h))"

text \<open>
  What a call of \<^verbatim>\<open>SendResponse\<close> ends with: the warning that no channel was found,
  the response put into the channel, the warning after waiting 5 seconds for room in it,
  or the panic of a send on a closed channel. \<open>drained\<close> says whether, when the channel
  is full, the waiting side takes the value in it within those 5 seconds.
\<close>

datatype send_outcome = NotFound | Sent | TimedOut | SendOnClosedChannel

definition SendResponse ::
  "ResponseHandler \<Rightarrow> string \<Rightarrow> HTTPResponse \<Rightarrow> bool \<Rightarrow> ResponseHandler \<times> send_outcome" where
  "SendResponse h requestID resp drained =
     (case DAList.lookup (channels h) requestID of
        None \<Rightarrow> (h, NotFound)
      | Some None \<Rightarrow> (h, NotFound)
      | Some (Some entry) \<Rightarrow>
          if chan_closed (ch entry) then (h, SendOnClosedChannel)
          else if length (chan_buf (ch entry)) < chan_cap (ch entry) then
            (h\<lparr>channels :=
                 DAList.update requestID
                   (Some (entry\<lparr>ch := (ch entry)\<lparr>chan_buf := chan_buf (ch entry) @ [resp]\<rparr>\<rparr>))
                   (channels h)\<rparr>,
             Sent)
          else if drained \<and> 0 < chan_cap (ch entry) then
            (h\<lparr>channels :=
                 DAList.update requestID
                   (Some (entry\<lparr>ch := (ch entry)\<lparr>chan_buf := tl (chan_buf (ch entry)) @ [resp]\<rparr>\<rparr>))
                   (channels h)\<rparr>,
             Sent)
          else (h, TimedOut))"

definition CleanupResponseChan :: "ResponseHandler \<Rightarrow> string \<Rightarrow> ResponseHandler" where
  "CleanupResponseChan h requestID =
     (case DAList.lookup (channels h) requestID of
        None \<Rightarrow> h
      | Some entry \<Rightarrow> h\<lparr>channels := DAList.delete requestID (channels h)\<rparr>)"

section \<open>The batching frame writer (package protocol)\<close>

text \<open>
  The repository holds two versions of \<^verbatim>\<open>FrameWriter\<close>. The one in part 005 latches
  the first write error and flushes adaptively; the one in part 006 has neither, and its
  \<^verbatim>\<open>WriteFrame\<close> has a \<^verbatim>\<open>default\<close> branch. The functions of the first are prefixed
  \<open>FrameWriter5\<close>, those of the second \<open>FrameWriter6\<close>; both work on the record
  below, the second using only the fields its struct has (the connection, the queue, the
  batch, the two closing flags and the batch size) and the state of its loop.

  \<^item> \<open>conn\<close> is the state of the sink; its \<^verbatim>\<open>Write\<close> method is passed to the
    functions that write.
  \<^item> \<open>queue\<close> is the channel of frames: what waits in its buffer (oldest first), its
    capacity \<open>queue_cap\<close> (0 for an unbuffered channel, whose buffer is always empty),
    and \<open>queue_closed\<close> once \<^verbatim>\<open>close(w.queue)\<close> ran.
  \<^item> \<open>loop_inbox\<close> is the frame a sender handed directly to \<^verbatim>\<open>writeLoop\<close> while the
    loop was parked in its \<^verbatim>\<open>select\<close>, until the loop has run the body of its receive
    case for it.
  \<^item> \<open>parked\<close> are the frames of the submissions that are parked in the
    \<^verbatim>\<open>select\<close> of \<^verbatim>\<open>WriteFrame\<close> (part 005), oldest first; \<open>resumed\<close> lists the
    submissions that were parked and have ended, with what they ended with, oldest first.
  \<^item> \<open>done_closed\<close> is set once \<^verbatim>\<open>close(w.done)\<close> ran, and \<open>w_closed\<close> is the field
    \<^verbatim>\<open>closed\<close>.
  \<^item> \<open>errOnce\<close> is set once the \<^verbatim>\<open>sync.Once\<close> has run.
  \<^item> \<open>onWriteError\<close> is the registered handler, if any; \<open>handler_calls\<close> lists the
    invocations of handlers that were started, with their argument, oldest first.
  \<^item> \<open>write_log\<close> lists what each call of \<^verbatim>\<open>WriteFrame\<close> made by a flush returned,
    oldest first.
  \<^item> \<open>loop_exited\<close> is set once \<^verbatim>\<open>writeLoop\<close> has returned.
\<close>

text \<open>
  A submission returns an error or nil, or it does not return in the state it finds:
  \<open>Blocked\<close> when no case of its \<^verbatim>\<open>select\<close> is ready and it parks,
  \<open>SendOnClosedQueue\<close> for the panic of a send on the closed queue.
\<close>

datatype submit_result = Returned "error option" | Blocked | SendOnClosedQueue

record ('s, 'h) FrameWriter =
  conn :: 's
  queue :: "Frame list"
  queue_cap :: nat
  queue_closed :: bool
  batch :: "Frame list"
  done_closed :: bool
  w_closed :: bool
  maxBatch :: nat
  writeErr :: "error option"
  errOnce :: bool
  onWriteError :: "'h option"
  adaptiveFlush :: bool
  lowConcurrencyThreshold :: int
  handler_calls :: "('h \<times> error) list"
  write_log :: "error option list"
  loop_exited :: bool
  loop_inbox :: "Frame option"
  parked :: "Frame list"
  resumed :: "(Frame \<times> submit_result) list"

definition NewFrameWriterWithConfig :: "'s \<Rightarrow> nat \<Rightarrow> nat \<Rightarrow> ('s, 'h) FrameWriter" where
  "NewFrameWriterWithConfig c maxBatch' queueSize =
     \<lparr>conn = c, queue = [], queue_cap = queueSize, queue_closed = False, batch = [],
      done_closed = False, w_closed = False, maxBatch = maxBatch', writeErr = None,
      errOnce = False, onWriteError = None, adaptiveFlush = False,
      lowConcurrencyThreshold = 0, handler_calls = [], write_log = [], loop_exited = False,
      loop_inbox = None, parked = [], resumed = []\<rparr>"

definition EnableAdaptiveFlush :: "('s, 'h) FrameWriter \<Rightarrow> int \<Rightarrow> ('s, 'h) FrameWriter" where
  "EnableAdaptiveFlush w threshold = w\<lparr>adaptiveFlush := True, lowConcurrencyThreshold := threshold\<rparr>"

definition NewFrameWriter5 :: "'s \<Rightarrow> ('s, 'h) FrameWriter" where
  "NewFrameWriter5 c = EnableAdaptiveFlush (NewFrameWriterWithConfig c 256 4096) 16"

definition NewFrameWriter6 :: "'s \<Rightarrow> ('s, 'h) FrameWriter" where
  "NewFrameWriter6 c = NewFrameWriterWithConfig c 128 1024"

definition SetWriteErrorHandler :: "('s, 'h) FrameWriter \<Rightarrow> 'h option \<Rightarrow> ('s, 'h) FrameWriter" where
  "SetWriteErrorHandler w handler = w\<lparr>onWriteError := handler\<rparr>"

subsection \<open>The writer of part 005\<close>

text \<open>The body that \<^verbatim>\<open>errOnce.Do\<close> runs, at most once in the life of the writer.\<close>

definition errOnce_Do :: "error \<Rightarrow> ('s, 'h) FrameWriter \<Rightarrow> ('s, 'h) FrameWriter" where
  "errOnce_Do err w =
     (if errOnce w then w
      else w\<lparr>errOnce := True,
             writeErr := Some err,
             handler_calls :=
               (case onWriteError w of
                  None \<Rightarrow> handler_calls w
                | Some handler \<Rightarrow> handler_calls w @ [(handler, err)]),
             w_closed := True\<rparr>)"

text \<open>One round of the loop of \<^verbatim>\<open>flushBatchLocked\<close>: write the frame, latch, release.\<close>

definition flush_frame ::
  "'s Writer \<Rightarrow> Frame \<Rightarrow> ('s, 'h) FrameWriter \<times> BufferPool \<Rightarrow> ('s, 'h) FrameWriter \<times> BufferPool" where
  "flush_frame Write frame st =
     (case st of
        (w, pool) \<Rightarrow>
          (case WriteFrame Write (conn w) frame of
             (Some err, c) \<Rightarrow>
               (errOnce_Do err (w\<lparr>conn := c, write_log := write_log w @ [Some err]\<rparr>),
                snd (Release frame pool))
           | (None, c) \<Rightarrow>
               (w\<lparr>conn := c, write_log := write_log w @ [None]\<rparr>, snd (Release frame pool))))"

definition FrameWriter5_flushBatchLocked ::
  "'s Writer \<Rightarrow> ('s, 'h) FrameWriter \<times> BufferPool \<Rightarrow> ('s, 'h) FrameWriter \<times> BufferPool" where
  "FrameWriter5_flushBatchLocked Write st =
     (case st of
        (w, pool) \<Rightarrow>
          if batch w = [] then (w, pool)
          else (case fold (flush_frame Write) (batch w) (w, pool) of
                  (w', pool') \<Rightarrow> (w'\<lparr>batch := []\<rparr>, pool')))"

definition closed_error :: "('s, 'h) FrameWriter \<Rightarrow> error" where
  "closed_error w = (case writeErr w of Some err \<Rightarrow> err | None \<Rightarrow> WriterClosed)"

text \<open>
  The channel operations of the Go runtime that the writer relies on.

  \<^verbatim>\<open>writeLoop\<close> can be parked in its \<^verbatim>\<open>select\<close>, waiting to receive, only while it has not
  returned, holds no frame, and nothing is ready for it: the buffer is empty, no sender is
  parked and neither channel is closed. Whether it has got there when a sender arrives is
  up to the scheduler: that is the argument \<open>loop_waiting\<close>. A send finds a receiver
  exactly when \<open>handoff_ready\<close> holds.
\<close>

definition handoff_ready :: "('s, 'h) FrameWriter \<Rightarrow> bool \<Rightarrow> bool" where
  "handoff_ready w loop_waiting =
     (loop_waiting \<and> \<not> loop_exited w \<and> loop_inbox w = None \<and> queue w = [] \<and> parked w = []
      \<and> \<not> queue_closed w \<and> \<not> done_closed w)"

text \<open>
  The case \<^verbatim>\<open>w.queue <- frame\<close> of a \<^verbatim>\<open>select\<close> is ready when the queue is closed (the
  send then panics), when a receiver waits, or when the buffer has room.
\<close>

definition send_ready :: "('s, 'h) FrameWriter \<Rightarrow> bool \<Rightarrow> bool" where
  "send_ready w loop_waiting =
     (queue_closed w \<or> handoff_ready w loop_waiting \<or> length (queue w) < queue_cap w)"

text \<open>
  What the send does once its case is chosen: it panics on a closed queue, hands the frame
  to the waiting \<^verbatim>\<open>writeLoop\<close>, or appends it to the buffer.
\<close>

definition chan_send ::
  "('s, 'h) FrameWriter \<Rightarrow> Frame \<Rightarrow> bool \<Rightarrow> submit_result \<times> ('s, 'h) FrameWriter" where
  "chan_send w frame loop_waiting =
     (if queue_closed w then (SendOnClosedQueue, w)
      else if handoff_ready w loop_waiting then (Returned None, w\<lparr>loop_inbox := Some frame\<rparr>)
      else (Returned None, w\<lparr>queue := queue w @ [frame]\<rparr>))"

text \<open>
  A receive takes the oldest frame of the buffer. If a sender is parked, the oldest one is
  woken and its send has succeeded: its frame goes to the tail of the buffer, or straight
  to the receiver when the buffer is empty (as it always is for an unbuffered queue).
  \<open>None\<close> when there is nothing to receive.
\<close>

definition chan_recv :: "('s, 'h) FrameWriter \<Rightarrow> (Frame \<times> ('s, 'h) FrameWriter) option" where
  "chan_recv w =
     (case parked w of
        [] \<Rightarrow>
          (case queue w of
             [] \<Rightarrow> None
           | frame # rest \<Rightarrow> Some (frame, w\<lparr>queue := rest\<rparr>))
      | p # ps \<Rightarrow>
          (case queue w of
             [] \<Rightarrow> Some (p, w\<lparr>parked := ps, resumed := resumed w @ [(p, Returned None)]\<rparr>)
           | frame # rest \<Rightarrow>
               Some (frame, w\<lparr>queue := rest @ [p], parked := ps,
                              resumed := resumed w @ [(p, Returned None)]\<rparr>)))"

text \<open>
  \<^verbatim>\<open>WriteFrame\<close> of part 005. Its \<^verbatim>\<open>select\<close> has the send and the receive from
  \<^verbatim>\<open>done\<close>, and no \<^verbatim>\<open>default\<close>: when neither is ready the submission parks, behind the
  submissions already parked. \<open>pick_send\<close> is the choice the runtime makes when both
  cases are ready.
\<close>

definition FrameWriter5_WriteFrame ::
  "('s, 'h) FrameWriter \<Rightarrow> Frame \<Rightarrow> bool \<Rightarrow> bool \<Rightarrow> submit_result \<times> ('s, 'h) FrameWriter" where
  "FrameWriter5_WriteFrame w frame pick_send loop_waiting =
     (if w_closed w then (Returned (Some (closed_error w)), w)
      else
        (let done_ready = done_closed w
         in if send_ready w loop_waiting \<and> (pick_send \<or> \<not> done_ready) then
              chan_send w frame loop_waiting
            else if done_ready then (Returned (Some (closed_error w)), w)
            else (Blocked, w\<lparr>parked := parked w @ [frame]\<rparr>)))"

text \<open>
  \<^verbatim>\<open>Close\<close> marks the writer closed, closes the queue, releases the frames still in it
  and closes \<^verbatim>\<open>done\<close>. Closing the queue wakes the parked submissions, whose sends
  panic; \<^verbatim>\<open>done\<close> is closed only after that.
\<close>

definition FrameWriter5_Close ::
  "('s, 'h) FrameWriter \<times> BufferPool \<Rightarrow> ('s, 'h) FrameWriter \<times> BufferPool" where
  "FrameWriter5_Close st =
     (case st of
        (w, pool) \<Rightarrow>
          if w_closed w then (w, pool)
          else (w\<lparr>w_closed := True, queue_closed := True, queue := [], done_closed := True,
                  parked := [],
                  resumed := resumed w @ map (\<lambda>p. (p, SendOnClosedQueue)) (parked w)\<rparr>,
                fold (\<lambda>frame p. snd (Release frame p)) (queue w) pool))"

text \<open>
  \<^verbatim>\<open>Flush\<close> receives from the queue until nothing is left to receive, which takes what
  waits in the buffer and then the frames of the parked submissions (each of which returns
  nil), moves all of it to the batch and flushes. On a queue that is closed while the
  writer is not, its loop never ends: the result is \<open>None\<close>.
\<close>

definition FrameWriter5_Flush ::
  "'s Writer \<Rightarrow> ('s, 'h) FrameWriter \<times> BufferPool \<Rightarrow> (('s, 'h) FrameWriter \<times> BufferPool) option" where
  "FrameWriter5_Flush Write st =
     (case st of
        (w, pool) \<Rightarrow>
          if w_closed w then Some (w, pool)
          else if queue_closed w then None
          else Some (FrameWriter5_flushBatchLocked Write
                       (w\<lparr>batch := batch w @ queue w @ parked w, queue := [], parked := [],
                          resumed := resumed w @ map (\<lambda>p. (p, Returned None)) (parked w)\<rparr>,
                        pool)))"

text \<open>
  The body of the receive case of \<^verbatim>\<open>writeLoop\<close> for a frame it has received:
  \<^verbatim>\<open>len(w.queue)\<close> is what the buffer holds by then.
\<close>

definition writeLoop_received ::
  "'s Writer \<Rightarrow> Frame \<Rightarrow> ('s, 'h) FrameWriter \<times> BufferPool \<Rightarrow> ('s, 'h) FrameWriter \<times> BufferPool" where
  "writeLoop_received Write frame st =
     (case st of
        (w, pool) \<Rightarrow>
          (let w1 = w\<lparr>batch := batch w @ [frame]\<rparr>;
               shouldFlushNow =
                 (maxBatch w1 \<le> length (batch w1)
                  \<or> (adaptiveFlush w1 \<and> int (length (queue w1)) \<le> lowConcurrencyThreshold w1))
           in if shouldFlushNow then FrameWriter5_flushBatchLocked Write (w1, pool)
              else (w1, pool)))"

text \<open>
  The branches of the \<^verbatim>\<open>select\<close> of \<^verbatim>\<open>writeLoop\<close>. A branch that is not ready, or
  any branch once the loop has returned, leaves the state as it is. A loop that was handed
  a frame while it waited is no longer in its \<^verbatim>\<open>select\<close>: what it does next is the body
  of the receive case for that frame, which is what \<open>QueueReceive\<close> stands for then.
  The heartbeat branch is given the frame the callback made (\<open>None\<close> when there is no
  callback or no frame); when the heartbeat ticker runs is left to the caller of the model.
\<close>

datatype loop_event = QueueReceive | BatchTick | HeartbeatTick "Frame option" | DoneReceive

definition writeLoop_step ::
  "'s Writer \<Rightarrow> loop_event \<Rightarrow> ('s, 'h) FrameWriter \<times> BufferPool \<Rightarrow> ('s, 'h) FrameWriter \<times> BufferPool" where
  "writeLoop_step Write ev st =
     (case st of
        (w, pool) \<Rightarrow>
          if loop_exited w then (w, pool)
          else
            (case loop_inbox w of
               Some frame \<Rightarrow>
                 (case ev of
                    QueueReceive \<Rightarrow> writeLoop_received Write frame (w\<lparr>loop_inbox := None\<rparr>, pool)
                  | _ \<Rightarrow> (w, pool))
             | None \<Rightarrow>
                 (case ev of
                    QueueReceive \<Rightarrow>
                      (case chan_recv w of
                         Some (frame, w1) \<Rightarrow> writeLoop_received Write frame (w1, pool)
                       | None \<Rightarrow>
                           if queue_closed w then
                             (case FrameWriter5_flushBatchLocked Write (w, pool) of
                                (w', pool') \<Rightarrow> (w'\<lparr>loop_exited := True\<rparr>, pool'))
                           else (w, pool))
                  | BatchTick \<Rightarrow>
                      if 0 < length (batch w) then FrameWriter5_flushBatchLocked Write (w, pool)
                      else (w, pool)
                  | HeartbeatTick None \<Rightarrow> (w, pool)
                  | HeartbeatTick (Some frame) \<Rightarrow>
                      FrameWriter5_flushBatchLocked Write (w\<lparr>batch := batch w @ [frame]\<rparr>, pool)
                  | DoneReceive \<Rightarrow>
                      if done_closed w then
                        (case FrameWriter5_flushBatchLocked Write (w, pool) of
                           (w', pool') \<Rightarrow> (w'\<lparr>loop_exited := True\<rparr>, pool'))
                      else (w, pool))))"

text \<open>
  What can happen to a writer: a submission, a call of \<^verbatim>\<open>Flush\<close>, \<^verbatim>\<open>Close\<close> or
  \<^verbatim>\<open>SetWriteErrorHandler\<close>, or a round of the loop. A submission that parks stays in the
  state, in \<open>parked\<close>, until a later event ends it. A panicking submission and a
  \<^verbatim>\<open>Flush\<close> that never ends leave the state as it is. \<open>run\<close> lets a list of these
  happen in order.
\<close>

datatype 'h writer_event =
    Submit Frame bool bool
  | CallFlush
  | CallClose
  | CallSetWriteErrorHandler "'h option"
  | Loop loop_event

definition writer_step ::
  "'s Writer \<Rightarrow> 'h writer_event \<Rightarrow> ('s, 'h) FrameWriter \<times> BufferPool \<Rightarrow> ('s, 'h) FrameWriter \<times> BufferPool" where
  "writer_step Write ev st =
     (case ev of
        Submit frame pick_send loop_waiting \<Rightarrow>
          (snd (FrameWriter5_WriteFrame (fst st) frame pick_send loop_waiting), snd st)
      | CallFlush \<Rightarrow> (case FrameWriter5_Flush Write st of None \<Rightarrow> st | Some st' \<Rightarrow> st')
      | CallClose \<Rightarrow> FrameWriter5_Close st
      | CallSetWriteErrorHandler handler \<Rightarrow> (SetWriteErrorHandler (fst st) handler, snd st)
      | Loop lev \<Rightarrow> writeLoop_step Write lev st)"

definition run ::
  "'s Writer \<Rightarrow> 'h writer_event list \<Rightarrow> ('s, 'h) FrameWriter \<times> BufferPool \<Rightarrow> ('s, 'h) FrameWriter \<times> BufferPool" where
  "run Write evs st = fold (writer_step Write) evs st"




text \<open>The first error in a list of results of \<^verbatim>\<open>WriteFrame\<close>, if there is one.\<close>

fun first_error :: "error option list \<Rightarrow> error option" where
  "first_error [] = None"
| "first_error (None # rs) = first_error rs"
| "first_error (Some err # rs) = Some err"

subsection \<open>The writer of part 006\<close>





definition FrameWriter6_Close :: "('s, 'h) FrameWriter \<Rightarrow> ('s, 'h) FrameWriter" where
  "FrameWriter6_Close w =
     (if w_closed w then w
      else w\<lparr>w_closed := True, queue_closed := True, done_closed := True\<rparr>)"

subsection \<open>What the latch of part 005 maintains\<close>

text \<open>
  The results of the calls of \<^verbatim>\<open>WriteFrame\<close> a flush makes for a batch, starting from a
  state of the sink.
\<close>

fun flush_results :: "'s Writer \<Rightarrow> 's \<Rightarrow> Frame list \<Rightarrow> error option list" where
  "flush_results Write c [] = []"
| "flush_results Write c (frame # frames) =
     fst (WriteFrame Write c frame) # flush_results Write (snd (WriteFrame Write c frame)) frames"

text \<open>
  The latch is sound when the recorded error is the first error any flush met, the
  \<^verbatim>\<open>sync.Once\<close> has run exactly if there is one, the writer is closed in that case, and
  the handlers started are none, or one that was given that error.
\<close>

definition latch_inv :: "('s, 'h) FrameWriter \<Rightarrow> bool" where
  "latch_inv w =
     (writeErr w = first_error (write_log w)
      \<and> errOnce w = (writeErr w \<noteq> None)
      \<and> (errOnce w \<longrightarrow> w_closed w)
      \<and> length (handler_calls w) \<le> 1
      \<and> list_all (\<lambda>call. Some (snd call) = writeErr w) (handler_calls w))"

text \<open>A sink that is broken: every \<^verbatim>\<open>Write\<close> fails with the given message.\<close>

definition broken_Write :: "string \<Rightarrow> 's Writer" where
  "broken_Write msg s p = (Some msg, s)"

section \<open>Properties of the codec\<close>

lemma Uint32_PutUint32: "Uint32 (PutUint32 v) = v"
proof -
  have "bit (Uint32 (PutUint32 v)) n = bit v n" for n
  proof (cases "n < 8")
    case True
    then show ?thesis by (simp add: Uint32_def PutUint32_def bit_simps)
  next
    case n8: False
    show ?thesis
    proof (cases "n < 16")
      case True
      with n8 show ?thesis by (auto simp add: Uint32_def PutUint32_def bit_simps)
    next
      case n16: False
      show ?thesis
      proof (cases "n < 24")
        case True
        with n8 n16 show ?thesis by (auto simp add: Uint32_def PutUint32_def bit_simps)
      next
        case False
        with n8 n16 show ?thesis
          by (auto simp add: Uint32_def PutUint32_def bit_simps dest: bit_imp_le_length)
      qed
    qed
  qed
  then show ?thesis by (rule bit_eqI)
qed

lemma length_PutUint32 [simp]: "length (PutUint32 v) = 4"
  by (simp add: PutUint32_def)

lemma unat_payload_len: "n \<le> MaxFrameSize \<Longrightarrow> unat (word_of_nat n :: 32 word) = n"
  by (simp add: unat_of_nat MaxFrameSize_def)

lemma MaxFrameSize_word: "unat (word_of_nat MaxFrameSize :: 32 word) = MaxFrameSize"
  by (simp add: unat_of_nat MaxFrameSize_def)

lemma SizeLarge_word: "unat (word_of_nat SizeLarge :: 32 word) = SizeLarge"
  by (simp add: unat_of_nat SizeLarge_def)

lemma ReadFull_append: "ReadFull (xs @ ys) (length xs) = (Inr xs, ys)"
  by (simp add: ReadFull_def)

lemma wire_split: "wire t p @ rest = (PutUint32 (word_of_nat (length p)) @ [t]) @ (p @ rest)"
  by (simp add: wire_def)

lemma ReadFrame_header:
  "ReadFrame pool ((PutUint32 v @ [t]) @ r1) =
    (if (word_of_nat MaxFrameSize :: 32 word) < v
           then (Inl (PayloadTooLarge (unat v)), pool, r1)
           else
              if 0 < v then
                (if (word_of_nat SizeLarge :: 32 word) < v then
                   (let pool1 = pool\<lparr>made := unat v # made pool\<rparr> in
                    case ReadFull r1 (unat v) of
                      (Inl err, r2) \<Rightarrow> (Inl (FailedReadPayload err), pool1, r2)
                    | (Inr payload, r2) \<Rightarrow>
                        (Inr \<lparr>Type = t, Payload = Some payload, poolBuffer = None\<rparr>,
                         pool1, r2))
                 else
                   (case GetBuffer pool (unat v) of
                      (poolBuf, pool1) \<Rightarrow>
                        (case ReadFull r1 (unat v) of
                           (Inl err, r2) \<Rightarrow>
                             (Inl (FailedReadPayload err), PutBuffer pool1 (Some poolBuf), r2)
                         | (Inr payload, r2) \<Rightarrow>
                             (Inr \<lparr>Type = t, Payload = Some payload,
                                   poolBuffer = Some poolBuf\<rparr>,
                              pool1, r2))))
              else
                (Inr \<lparr>Type = t, Payload = None, poolBuffer = None\<rparr>, pool, r1))"
proof -
  have h: "ReadFull ((PutUint32 v @ [t]) @ r1) FrameHeaderSize = (Inr (PutUint32 v @ [t]), r1)"
    using ReadFull_append [of "PutUint32 v @ [t]" r1] by (simp add: FrameHeaderSize_def)
  have u: "Uint32 (take 4 (PutUint32 v @ [t])) = v"
    by (simp add: Uint32_PutUint32)
  have n: "(PutUint32 v @ [t]) ! 4 = t"
    by (simp add: nth_append)
  show ?thesis
    unfolding ReadFrame_def h by (simp only: prod.case sum.case u n Let_def)
qed

lemma ReadFrame_wire:
  assumes "length p \<le> MaxFrameSize"
  shows "ReadFrame pool (wire t p @ rest) =
     (Inr \<lparr>Type = t, Payload = (if p = [] then None else Some p),
           poolBuffer = (if p = [] \<or> SizeLarge < length p then None
                         else Some (fst (GetBuffer pool (length p))))\<rparr>,
      (if p = [] then pool
       else if SizeLarge < length p then pool\<lparr>made := length p # made pool\<rparr>
       else snd (GetBuffer pool (length p))),
      rest)"
proof -
  let ?v = "word_of_nat (length p) :: 32 word"
  have v: "unat ?v = length p" using assms by (rule unat_payload_len)
  have a: "\<not> (word_of_nat MaxFrameSize :: 32 word) < ?v"
    using assms by (simp add: word_less_nat_alt v MaxFrameSize_word)
  have b: "(0 < ?v) = (p \<noteq> [])"
    by (simp add: word_less_nat_alt v)
  have c: "((word_of_nat SizeLarge :: 32 word) < ?v) = (SizeLarge < length p)"
    by (simp add: word_less_nat_alt v SizeLarge_word)
  have r: "ReadFull (p @ rest) (length p) = (Inr p, rest)" by (rule ReadFull_append)
  show ?thesis
    unfolding wire_split ReadFrame_header
    by (simp add: a b c v r split: prod.splits)
qed

lemma WriteFrame_buffer:
  assumes "slice_len (Payload f) \<le> MaxFrameSize"
  shows "WriteFrame buffer_Write buf f = (None, buf @ wire (Type f) (slice_bytes (Payload f)))"
  using assms
  by (cases "Payload f") (auto simp add: WriteFrame_def buffer_Write_def wire_def slice_len_def slice_bytes_def Let_def)

lemma ReadFrame_cases:
  "ReadFrame pool r =
    (if length r < FrameHeaderSize
     then (Inl (FailedReadHeader (if r = [] then EOF else ErrUnexpectedEOF)), pool, [])
     else if MaxFrameSize < declared r
     then (Inl (PayloadTooLarge (declared r)), pool, drop FrameHeaderSize r)
     else if declared r = 0
     then (Inr \<lparr>Type = r ! 4, Payload = None, poolBuffer = None\<rparr>, pool, drop FrameHeaderSize r)
     else if length r < FrameHeaderSize + declared r
     then (Inl (FailedReadPayload (if length r = FrameHeaderSize then EOF else ErrUnexpectedEOF)),
           (if SizeLarge < declared r then pool\<lparr>made := declared r # made pool\<rparr>
            else PutBuffer (snd (GetBuffer pool (declared r))) (Some (fst (GetBuffer pool (declared r))))),
           [])
     else (Inr \<lparr>Type = r ! 4, Payload = Some (take (declared r) (drop FrameHeaderSize r)),
                poolBuffer = (if SizeLarge < declared r then None
                              else Some (fst (GetBuffer pool (declared r))))\<rparr>,
           (if SizeLarge < declared r then pool\<lparr>made := declared r # made pool\<rparr>
            else snd (GetBuffer pool (declared r))),
           drop (FrameHeaderSize + declared r) r))"
proof (cases "length r < FrameHeaderSize")
  case True
  then show ?thesis by (simp add: ReadFrame_def ReadFull_def)
next
  case False
  let ?v = "Uint32 (take 4 r)"
  have h: "ReadFull r FrameHeaderSize = (Inr (take FrameHeaderSize r), drop FrameHeaderSize r)"
    using False by (simp add: ReadFull_def)
  have t4: "take 4 (take FrameHeaderSize r) = take 4 r"
    by (simp add: FrameHeaderSize_def)
  have n4: "take FrameHeaderSize r ! 4 = r ! 4"
    by (simp add: FrameHeaderSize_def)
  have a: "((word_of_nat MaxFrameSize :: 32 word) < ?v) = (MaxFrameSize < declared r)"
    by (simp add: word_less_nat_alt MaxFrameSize_word declared_def)
  have b: "(0 < ?v) = (declared r \<noteq> 0)"
    by (simp add: word_less_nat_alt declared_def)
  have c: "((word_of_nat SizeLarge :: 32 word) < ?v) = (SizeLarge < declared r)"
    by (simp add: word_less_nat_alt SizeLarge_word declared_def)
  have d: "unat ?v = declared r" by (simp add: declared_def)
  have p: "ReadFull (drop FrameHeaderSize r) (declared r) =
     (if length r < FrameHeaderSize + declared r
      then (Inl (if length r = FrameHeaderSize then EOF else ErrUnexpectedEOF), [])
      else (Inr (take (declared r) (drop FrameHeaderSize r)), drop (FrameHeaderSize + declared r) r))"
    using False by (auto simp add: ReadFull_def add.commute)
  have "ReadFrame pool r =
     (if MaxFrameSize < declared r
      then (Inl (PayloadTooLarge (declared r)), pool, drop FrameHeaderSize r)
      else if declared r \<noteq> 0 then
         (if SizeLarge < declared r then
            (let pool1 = pool\<lparr>made := declared r # made pool\<rparr> in
             case ReadFull (drop FrameHeaderSize r) (declared r) of
               (Inl err, r2) \<Rightarrow> (Inl (FailedReadPayload err), pool1, r2)
             | (Inr payload, r2) \<Rightarrow>
                 (Inr \<lparr>Type = r ! 4, Payload = Some payload, poolBuffer = None\<rparr>, pool1, r2))
          else
            (case GetBuffer pool (declared r) of
               (poolBuf, pool1) \<Rightarrow>
                 (case ReadFull (drop FrameHeaderSize r) (declared r) of
                    (Inl err, r2) \<Rightarrow>
                      (Inl (FailedReadPayload err), PutBuffer pool1 (Some poolBuf), r2)
                  | (Inr payload, r2) \<Rightarrow>
                      (Inr \<lparr>Type = r ! 4, Payload = Some payload, poolBuffer = Some poolBuf\<rparr>,
                       pool1, r2))))
      else (Inr \<lparr>Type = r ! 4, Payload = None, poolBuffer = None\<rparr>, pool, drop FrameHeaderSize r))"
    unfolding ReadFrame_def h
    by (simp only: prod.case sum.case Let_def t4 n4 a b c d)
  then show ?thesis
    using False by (simp add: p split: prod.splits)
qed

text \<open>
  Claim C1 (frame round trip). A frame whose payload is at most 10 MiB long, written by
  \<^verbatim>\<open>WriteFrame\<close> to an empty in-memory sink, is written without error, and
  \<^verbatim>\<open>ReadFrame\<close> on the bytes of that sink returns a frame of the same type with the
  same payload bytes and leaves nothing unread, whatever the state of the buffer pool. A
  frame whose payload is longer than 10 MiB is refused by \<^verbatim>\<open>WriteFrame\<close> with the
  payload-too-large error, for every sink, and the sink is left in the state it had: no
  \<^verbatim>\<open>Write\<close> has reached it.
\<close>

theorem frame_round_trip:
  "(slice_len (Payload frame) \<le> MaxFrameSize \<longrightarrow>
      fst (WriteFrame buffer_Write [] frame) = None \<and>
      (case ReadFrame pool (snd (WriteFrame buffer_Write [] frame)) of
         (Inr f, pool', rest) \<Rightarrow>
           Type f = Type frame \<and> slice_bytes (Payload f) = slice_bytes (Payload frame) \<and> rest = []
       | (Inl e, pool', rest) \<Rightarrow> False))
   \<and> (MaxFrameSize < slice_len (Payload frame) \<longrightarrow>
        WriteFrame Write w frame = (Some (PayloadTooLarge (slice_len (Payload frame))), w))"
proof (intro conjI impI)
  assume le: "slice_len (Payload frame) \<le> MaxFrameSize"
  then have wr: "WriteFrame buffer_Write [] frame =
      (None, wire (Type frame) (slice_bytes (Payload frame)))"
    using WriteFrame_buffer [of frame "[]"] by simp
  then show "fst (WriteFrame buffer_Write [] frame) = None" by simp
  have len: "length (slice_bytes (Payload frame)) \<le> MaxFrameSize"
    using le by (simp add: slice_len_def slice_bytes_def split: option.splits)
  show "case ReadFrame pool (snd (WriteFrame buffer_Write [] frame)) of
         (Inr f, pool', rest) \<Rightarrow>
           Type f = Type frame \<and> slice_bytes (Payload f) = slice_bytes (Payload frame) \<and> rest = []
       | (Inl e, pool', rest) \<Rightarrow> False"
    using ReadFrame_wire [OF len, of pool "Type frame" "[]"]
    by (simp add: wr slice_bytes_def)
next
  assume "MaxFrameSize < slice_len (Payload frame)"
  then show "WriteFrame Write w frame = (Some (PayloadTooLarge (slice_len (Payload frame))), w)"
    by (simp add: WriteFrame_def)
qed

theorem frame_round_trip_witness:
  "slice_len (Payload \<lparr>Type = 5, Payload = Some [1, 2, 3], poolBuffer = None\<rparr>) \<le> MaxFrameSize
   \<and> WriteFrame buffer_Write [] \<lparr>Type = 5, Payload = Some [1, 2, 3], poolBuffer = None\<rparr>
       = (None, [0, 0, 0, 3, 5, 1, 2, 3])
   \<and> fst (ReadFrame NewBufferPool [0, 0, 0, 3, 5, 1, 2, 3])
       = Inr \<lparr>Type = 5, Payload = Some [1, 2, 3], poolBuffer = Some (Buffer SizeSmall)\<rparr>
   \<and> MaxFrameSize < slice_len (Payload \<lparr>Type = 5, Payload = Some (replicate 10485761 0), poolBuffer = None\<rparr>)
   \<and> WriteFrame buffer_Write [9] \<lparr>Type = 5, Payload = Some (replicate 10485761 0), poolBuffer = None\<rparr>
       = (Some (PayloadTooLarge 10485761), [9])"
proof -
  let ?f = "\<lparr>Type = 5, Payload = Some [1, 2, 3], poolBuffer = None\<rparr>"
  let ?g = "\<lparr>Type = 5, Payload = Some (replicate 10485761 0), poolBuffer = None\<rparr>"
  have h1: "slice_len (Payload ?f) \<le> MaxFrameSize"
    by (simp add: slice_len_def MaxFrameSize_def)
  have h2: "MaxFrameSize < slice_len (Payload ?g)"
    by (simp add: slice_len_def MaxFrameSize_def)
  have w: "WriteFrame buffer_Write [] ?f = (None, [0, 0, 0, 3, 5, 1, 2, 3])"
    by (simp add: WriteFrame_def buffer_Write_def slice_len_def slice_bytes_def
        MaxFrameSize_def PutUint32_def)
  have r: "fst (ReadFrame NewBufferPool [0, 0, 0, 3, 5, 1, 2, 3])
       = Inr \<lparr>Type = 5, Payload = Some [1, 2, 3], poolBuffer = Some (Buffer SizeSmall)\<rparr>"
    by (simp add: ReadFrame_def ReadFull_def FrameHeaderSize_def Uint32_def MaxFrameSize_def
        SizeLarge_def GetBuffer_def BufferPool_Get_def NewBufferPool_def SizeSmall_def)
  from frame_round_trip [of ?f NewBufferPool buffer_Write "[9]"] h1
    frame_round_trip [of ?g NewBufferPool buffer_Write "[9]"] h2 w r
  show ?thesis by (simp add: slice_len_def)
qed

text \<open>
  Claim C7 (length-prefix discipline). When \<^verbatim>\<open>ReadFrame\<close> succeeds, the payload has
  the length the header declares, and the unread rest of the stream is the stream without
  its first \<open>5 + length\<close> bytes: exactly that many were consumed. With fewer than 5
  bytes it fails at the header; with a header and fewer payload bytes than declared it
  fails at the payload; and when the header declares more than 10 MiB it fails having
  consumed the 5 header bytes only, with the pool and the allocation log unchanged: no
  buffer was drawn or made.
\<close>

theorem ReadFrame_length_prefix:
  "(\<forall>f pool' rest. ReadFrame pool r = (Inr f, pool', rest) \<longrightarrow>
       slice_len (Payload f) = declared r \<and>
       FrameHeaderSize + declared r \<le> length r \<and>
       rest = drop (FrameHeaderSize + declared r) r \<and>
       slice_bytes (Payload f) = take (declared r) (drop FrameHeaderSize r))
   \<and> (length r < FrameHeaderSize \<longrightarrow>
        fst (ReadFrame pool r) = Inl (FailedReadHeader (if r = [] then EOF else ErrUnexpectedEOF)))
   \<and> (FrameHeaderSize \<le> length r \<and> declared r \<le> MaxFrameSize
        \<and> length r - FrameHeaderSize < declared r \<longrightarrow>
        fst (ReadFrame pool r) =
          Inl (FailedReadPayload (if length r = FrameHeaderSize then EOF else ErrUnexpectedEOF)))
   \<and> (FrameHeaderSize \<le> length r \<and> MaxFrameSize < declared r \<longrightarrow>
        ReadFrame pool r = (Inl (PayloadTooLarge (declared r)), pool, drop FrameHeaderSize r))"
proof (intro conjI allI impI)
  fix f pool' rest
  assume ok: "ReadFrame pool r = (Inr f, pool', rest)"
  then have a: "\<not> length r < FrameHeaderSize" and b: "\<not> MaxFrameSize < declared r"
    and c: "declared r \<noteq> 0 \<Longrightarrow> \<not> length r < FrameHeaderSize + declared r"
    by (auto simp add: ReadFrame_cases split: if_splits)
  from a c show "FrameHeaderSize + declared r \<le> length r"
    by (cases "declared r = 0") auto
  from ok a b c show "slice_len (Payload f) = declared r"
    by (cases "declared r = 0") (auto simp add: ReadFrame_cases slice_len_def)
  from ok a b c show "rest = drop (FrameHeaderSize + declared r) r"
    by (cases "declared r = 0") (auto simp add: ReadFrame_cases)
  from ok a b c show "slice_bytes (Payload f) = take (declared r) (drop FrameHeaderSize r)"
    by (cases "declared r = 0") (auto simp add: ReadFrame_cases slice_bytes_def)
next
  assume "length r < FrameHeaderSize"
  then show "fst (ReadFrame pool r) = Inl (FailedReadHeader (if r = [] then EOF else ErrUnexpectedEOF))"
    by (simp add: ReadFrame_cases)
next
  assume "FrameHeaderSize \<le> length r \<and> declared r \<le> MaxFrameSize
        \<and> length r - FrameHeaderSize < declared r"
  then show "fst (ReadFrame pool r) =
          Inl (FailedReadPayload (if length r = FrameHeaderSize then EOF else ErrUnexpectedEOF))"
    by (auto simp add: ReadFrame_cases)
next
  assume "FrameHeaderSize \<le> length r \<and> MaxFrameSize < declared r"
  then show "ReadFrame pool r = (Inl (PayloadTooLarge (declared r)), pool, drop FrameHeaderSize r)"
    by (simp add: ReadFrame_cases)
qed

theorem ReadFrame_length_prefix_witness:
  "ReadFrame NewBufferPool [0, 0, 0, 2, 5, 9, 8, 7] =
       (Inr \<lparr>Type = 5, Payload = Some [9, 8], poolBuffer = Some (Buffer SizeSmall)\<rparr>,
        NewBufferPool\<lparr>made := [SizeSmall]\<rparr>, [7])
   \<and> declared [0, 0, 0, 2, 5, 9, 8, 7] = 2
   \<and> ([7] :: byte list) = drop (FrameHeaderSize + 2) [0, 0, 0, 2, 5, 9, 8, 7]
   \<and> fst (ReadFrame NewBufferPool [0, 0, 0]) = Inl (FailedReadHeader ErrUnexpectedEOF)
   \<and> fst (ReadFrame NewBufferPool [0, 0, 0, 2, 5, 9]) = Inl (FailedReadPayload ErrUnexpectedEOF)
   \<and> ReadFrame NewBufferPool [0, 192, 0, 0, 5, 1] = (Inl (PayloadTooLarge 12582912), NewBufferPool, [1])"
proof -
  let ?r = "[0, 0, 0, 2, 5, 9, 8, 7] :: byte list"
  have ok: "ReadFrame NewBufferPool ?r =
       (Inr \<lparr>Type = 5, Payload = Some [9, 8], poolBuffer = Some (Buffer SizeSmall)\<rparr>,
        NewBufferPool\<lparr>made := [SizeSmall]\<rparr>, [7])"
    by (simp add: ReadFrame_def ReadFull_def FrameHeaderSize_def Uint32_def MaxFrameSize_def
        SizeLarge_def GetBuffer_def BufferPool_Get_def NewBufferPool_def SizeSmall_def)
  have d1: "declared ?r = 2" by (simp add: declared_def Uint32_def)
  have d2: "declared [0, 0, 0, 2, 5, 9] = 2" by (simp add: declared_def Uint32_def)
  have d3: "declared [0, 192, 0, 0, 5, 1] = 12582912" by (simp add: declared_def Uint32_def)
  from ReadFrame_length_prefix [of NewBufferPool ?r] ok d1
  have a: "[7] = drop (FrameHeaderSize + 2) ?r" by simp
  from ReadFrame_length_prefix [of NewBufferPool "[0, 0, 0]"]
  have b: "fst (ReadFrame NewBufferPool [0, 0, 0]) = Inl (FailedReadHeader ErrUnexpectedEOF)"
    by (simp add: FrameHeaderSize_def)
  from ReadFrame_length_prefix [of NewBufferPool "[0, 0, 0, 2, 5, 9]"] d2
  have c: "fst (ReadFrame NewBufferPool [0, 0, 0, 2, 5, 9]) = Inl (FailedReadPayload ErrUnexpectedEOF)"
    by (simp add: FrameHeaderSize_def MaxFrameSize_def)
  from ReadFrame_length_prefix [of NewBufferPool "[0, 192, 0, 0, 5, 1]"] d3
  have d: "ReadFrame NewBufferPool [0, 192, 0, 0, 5, 1] = (Inl (PayloadTooLarge 12582912), NewBufferPool, [1])"
    by (simp add: FrameHeaderSize_def MaxFrameSize_def)
  from ok d1 a b c d show ?thesis by simp
qed

lemma idle_PutBuffer_le: "idle (PutBuffer pool b) \<le> idle pool + 1"
  by (simp add: PutBuffer_def BufferPool_Put_def idle_def Let_def split: option.splits)

lemma cap_GetBuffer: "cap (fst (GetBuffer pool n)) \<in> {SizeSmall, SizeMedium, SizeLarge}"
  by (simp add: GetBuffer_def BufferPool_Get_def)

lemma idle_PutBuffer_class:
  "cap b \<in> {SizeSmall, SizeMedium, SizeLarge} \<Longrightarrow> idle (PutBuffer pool (Some b)) = idle pool + 1"
  by (auto simp add: PutBuffer_def BufferPool_Put_def idle_def Let_def)

lemma ReadFrame_poolBuffer:
  assumes "ReadFrame pool0 r = (Inr f, pool, rest)"
  shows "(poolBuffer f \<noteq> None \<longleftrightarrow> 0 < declared r \<and> declared r \<le> SizeLarge)
       \<and> (\<forall>b. poolBuffer f = Some b \<longrightarrow> cap b \<in> {SizeSmall, SizeMedium, SizeLarge})"
  using assms cap_GetBuffer [of pool0 "declared r"]
  by (auto simp add: ReadFrame_cases split: if_splits)

text \<open>
  Claim C10 as stated says that after the first \<^verbatim>\<open>Release\<close> the payload of every
  decoded frame is nil. A decoded frame whose payload is longer than 256 KiB has no pool
  handle, and \<^verbatim>\<open>Release\<close> leaves its payload in place.
\<close>

theorem Release_large_frame_counterexample:
  "ReadFrame NewBufferPool (wire 5 (replicate 262145 0)) =
     (Inr \<lparr>Type = 5, Payload = Some (replicate 262145 0), poolBuffer = None\<rparr>,
      NewBufferPool\<lparr>made := [262145]\<rparr>, [])
   \<and> Payload (fst (Release \<lparr>Type = 5, Payload = Some (replicate 262145 0), poolBuffer = None\<rparr>
                           (NewBufferPool\<lparr>made := [262145]\<rparr>)))
       = Some (replicate 262145 0)
   \<and> Some (replicate 262145 (0 :: byte)) \<noteq> None"
proof -
  have "length (replicate 262145 (0 :: byte)) \<le> MaxFrameSize"
    by (simp add: MaxFrameSize_def)
  from ReadFrame_wire [OF this, of NewBufferPool 5 "[]"]
  have "ReadFrame NewBufferPool (wire 5 (replicate 262145 0)) =
     (Inr \<lparr>Type = 5, Payload = Some (replicate 262145 0), poolBuffer = None\<rparr>,
      NewBufferPool\<lparr>made := [262145]\<rparr>, [])"
    by (simp add: SizeLarge_def NewBufferPool_def)
  then show ?thesis by (simp add: Release_def)
qed

text \<open>
  Claim C10, amended (release is idempotent and returns the buffer at most once). For
  every frame and pool: a second \<^verbatim>\<open>Release\<close> changes neither the frame nor the pool;
  after the first the pool handle is nil; a frame that held a pool handle has a nil
  payload afterwards, its buffer went through \<^verbatim>\<open>PutBuffer\<close> once and the pool holds
  at most one more idle buffer; a frame with no pool handle is left as it is, payload
  included. A frame decoded by \<^verbatim>\<open>ReadFrame\<close> holds a pool handle exactly when its
  declared length is between 1 byte and 256 KiB, and releasing it adds exactly one idle
  buffer in that case and none otherwise.
\<close>

theorem Release_idempotent:
  "Release (fst (Release f pool)) (snd (Release f pool)) = Release f pool
   \<and> poolBuffer (fst (Release f pool)) = None
   \<and> (poolBuffer f \<noteq> None \<longrightarrow>
        Payload (fst (Release f pool)) = None
        \<and> snd (Release f pool) = PutBuffer pool (poolBuffer f)
        \<and> idle (snd (Release f pool)) \<le> idle pool + 1)
   \<and> (poolBuffer f = None \<longrightarrow> Release f pool = (f, pool))
   \<and> (\<forall>pool0 r rest. ReadFrame pool0 r = (Inr f, pool, rest) \<longrightarrow>
        (poolBuffer f \<noteq> None \<longleftrightarrow> 0 < declared r \<and> declared r \<le> SizeLarge)
        \<and> idle (snd (Release f pool)) = idle pool + (if poolBuffer f = None then 0 else 1))"
proof (intro conjI allI impI)
  show "Release (fst (Release f pool)) (snd (Release f pool)) = Release f pool"
    by (simp add: Release_def split: option.splits)
  show "poolBuffer (fst (Release f pool)) = None"
    by (simp add: Release_def split: option.splits)
  show "Release f pool = (f, pool)" if "poolBuffer f = None"
    using that by (simp add: Release_def)
next
  assume "poolBuffer f \<noteq> None"
  then obtain b where b: "poolBuffer f = Some b" by auto
  then show "Payload (fst (Release f pool)) = None" by (simp add: Release_def)
  from b show "snd (Release f pool) = PutBuffer pool (poolBuffer f)" by (simp add: Release_def)
  from b show "idle (snd (Release f pool)) \<le> idle pool + 1"
    using idle_PutBuffer_le [of pool "Some b"] by (simp add: Release_def)
next
  fix pool0 r rest
  assume dec: "ReadFrame pool0 r = (Inr f, pool, rest)"
  from ReadFrame_poolBuffer [OF dec]
  show "poolBuffer f \<noteq> None \<longleftrightarrow> 0 < declared r \<and> declared r \<le> SizeLarge" by simp
  from ReadFrame_poolBuffer [OF dec]
  show "idle (snd (Release f pool)) = idle pool + (if poolBuffer f = None then 0 else 1)"
    by (cases "poolBuffer f") (auto simp add: Release_def idle_PutBuffer_class)
qed

theorem Release_idempotent_witness:
  "ReadFrame NewBufferPool [0, 0, 0, 2, 5, 9, 8] =
       (Inr \<lparr>Type = 5, Payload = Some [9, 8], poolBuffer = Some (Buffer SizeSmall)\<rparr>,
        NewBufferPool\<lparr>made := [SizeSmall]\<rparr>, [])
   \<and> Release \<lparr>Type = 5, Payload = Some [9, 8], poolBuffer = Some (Buffer SizeSmall)\<rparr>
        (NewBufferPool\<lparr>made := [SizeSmall]\<rparr>)
      = (\<lparr>Type = 5, Payload = None, poolBuffer = None\<rparr>, NewBufferPool\<lparr>small := 1, made := [SizeSmall]\<rparr>)
   \<and> Release \<lparr>Type = 5, Payload = None, poolBuffer = None\<rparr> (NewBufferPool\<lparr>small := 1, made := [SizeSmall]\<rparr>)
      = (\<lparr>Type = 5, Payload = None, poolBuffer = None\<rparr>, NewBufferPool\<lparr>small := 1, made := [SizeSmall]\<rparr>)
   \<and> idle (NewBufferPool\<lparr>small := 1, made := [SizeSmall]\<rparr>) = idle (NewBufferPool\<lparr>made := [SizeSmall]\<rparr>) + 1"
proof -
  let ?f = "\<lparr>Type = 5, Payload = Some [9, 8], poolBuffer = Some (Buffer SizeSmall)\<rparr>"
  let ?p = "NewBufferPool\<lparr>made := [SizeSmall]\<rparr>"
  have dec: "ReadFrame NewBufferPool [0, 0, 0, 2, 5, 9, 8] = (Inr ?f, ?p, [])"
    by (simp add: ReadFrame_def ReadFull_def FrameHeaderSize_def Uint32_def MaxFrameSize_def
        SizeLarge_def GetBuffer_def BufferPool_Get_def NewBufferPool_def SizeSmall_def)
  have rel: "Release ?f ?p =
      (\<lparr>Type = 5, Payload = None, poolBuffer = None\<rparr>, NewBufferPool\<lparr>small := 1, made := [SizeSmall]\<rparr>)"
    by (simp add: Release_def PutBuffer_def BufferPool_Put_def NewBufferPool_def)
  have again: "Release \<lparr>Type = 5, Payload = None, poolBuffer = None\<rparr>
        (NewBufferPool\<lparr>small := 1, made := [SizeSmall]\<rparr>)
      = (\<lparr>Type = 5, Payload = None, poolBuffer = None\<rparr>, NewBufferPool\<lparr>small := 1, made := [SizeSmall]\<rparr>)"
    using Release_idempotent [of ?f ?p, THEN conjunct1] unfolding rel by simp
  have "idle (NewBufferPool\<lparr>small := 1, made := [SizeSmall]\<rparr>) = idle ?p + 1"
    by (simp add: idle_def NewBufferPool_def)
  with dec rel again show ?thesis by simp
qed

section \<open>Properties of the identifier and subdomain helpers\<close>

lemma set_rmatch_Class:
  "set (concat (map (rmatch (Class p)) ss)) = {t. \<exists>c. c # t \<in> set ss \<and> p c}"
  by (induction ss) (auto split: list.splits if_splits)

lemma set_rmatch_Class_funpow:
  "set (((\<lambda>ss. concat (map (rmatch (Class p)) ss)) ^^ n) ss) =
     {drop n s | s. s \<in> set ss \<and> n \<le> length s \<and> (\<forall>c \<in> set (take n s). p c)}"
proof (induction n)
  case 0
  then show ?case by auto
next
  case (Suc n)
  let ?F = "\<lambda>ss. concat (map (rmatch (Class p)) ss)"
  have "(?F ^^ Suc n) ss = concat (map (rmatch (Class p)) ((?F ^^ n) ss))"
    by (simp only: funpow.simps o_apply)
  then have "set ((?F ^^ Suc n) ss) = {t. \<exists>c. c # t \<in> set ((?F ^^ n) ss) \<and> p c}"
    by (simp only: set_rmatch_Class)
  also have "\<dots> = {drop (Suc n) s | s. s \<in> set ss \<and> Suc n \<le> length s \<and> (\<forall>c \<in> set (take (Suc n) s). p c)}"
    (is "?A = ?B")
  proof (intro set_eqI iffI)
    fix t
    assume "t \<in> ?A"
    then obtain c where c: "c # t \<in> set ((?F ^^ n) ss)" "p c" by blast
    from c(1) obtain s where s: "c # t = drop n s" "s \<in> set ss" "n \<le> length s"
      "\<forall>c\<in>set (take n s). p c"
      unfolding Suc.IH by blast
    from s(1) have n: "n < length s"
      by (metis drop_all leI list.distinct(1))
    from s(1) n have "s ! n = c" and "drop (Suc n) s = t"
      by (metis Cons_nth_drop_Suc list.inject)+
    with s n c(2) have "t = drop (Suc n) s \<and> s \<in> set ss \<and> Suc n \<le> length s
        \<and> (\<forall>c\<in>set (take (Suc n) s). p c)"
      by (auto simp add: take_Suc_conv_app_nth)
    then show "t \<in> ?B" by blast
  next
    fix t
    assume "t \<in> ?B"
    then obtain s where s: "t = drop (Suc n) s" "s \<in> set ss" "Suc n \<le> length s"
      "\<forall>c\<in>set (take (Suc n) s). p c" by blast
    then have n: "n < length s" by simp
    have "s ! n # t = drop n s" using s(1) n by (simp add: Cons_nth_drop_Suc)
    moreover have "\<forall>c\<in>set (take n s). p c" and "p (s ! n)"
      using s(4) n by (auto simp add: take_Suc_conv_app_nth)
    ultimately have "s ! n # t \<in> set ((?F ^^ n) ss) \<and> p (s ! n)"
      unfolding Suc.IH using s(2) n by auto
    then show "t \<in> ?A" by blast
  qed
  finally show ?case .
qed

lemma set_rmatch_Repeat_Class:
  "set (rmatch (Repeat (Class p) lo hi) s) =
     {drop n s | n. lo \<le> n \<and> n \<le> hi \<and> n \<le> length s \<and> (\<forall>c \<in> set (take n s). p c)}"
proof -
  let ?F = "\<lambda>ss. concat (map (rmatch (Class p)) ss)"
  have "set (rmatch (Repeat (Class p) lo hi) s) = (\<Union>n \<in> set [lo..<Suc hi]. set ((?F ^^ n) [s]))"
    by (simp only: rmatch.simps(3) set_concat set_map image_image)
  also have "\<dots> = {drop n s | n. lo \<le> n \<and> n \<le> hi \<and> n \<le> length s \<and> (\<forall>c \<in> set (take n s). p c)}"
    unfolding set_rmatch_Class_funpow by auto
  finally show ?thesis .
qed

lemma singleton_drop_iff:
  "(drop n t = [d]) \<longleftrightarrow> (Suc n = length t \<and> last t = d)"
proof
  assume a: "drop n t = [d]"
  then have "length (drop n t) = 1" by simp
  then have n: "Suc n = length t" by simp
  then have "last (drop n t) = last t" by (simp add: last_drop)
  with a n show "Suc n = length t \<and> last t = d" by simp
next
  assume a: "Suc n = length t \<and> last t = d"
  then have "length t = Suc n" by simp
  then have l: "length (drop n t) = 1" by simp
  then obtain x where x: "drop n t = [x]"
    by (cases "drop n t") auto
  from a have "last (drop n t) = last t" by (simp add: last_drop)
  with x a show "drop n t = [d]" by simp
qed

lemma MatchString_subdomainRegex:
  "MatchString subdomainRegex s \<longleftrightarrow>
     3 \<le> length s \<and> length s \<le> 63 \<and> lower_or_digit (hd s) \<and> lower_or_digit (last s)
     \<and> (\<forall>c \<in> set (butlast (tl s)). lower_digit_or_dash c)"
proof (cases s)
  case Nil
  then show ?thesis by (simp add: MatchString_def subdomainRegex_def)
next
  case (Cons c t)
  have "MatchString subdomainRegex s \<longleftrightarrow>
     lower_or_digit c \<and> (\<exists>u \<in> set (rmatch (Repeat (Class lower_digit_or_dash) 1 61) t).
        \<exists>d. u = [d] \<and> lower_or_digit d)"
    unfolding MatchString_def subdomainRegex_def Cons
    by (auto simp del: rmatch.simps(3) split: list.splits if_splits)
  also have "\<dots> \<longleftrightarrow> lower_or_digit c \<and>
     (\<exists>n. 1 \<le> n \<and> n \<le> 61 \<and> Suc n = length t \<and> (\<forall>c \<in> set (take n t). lower_digit_or_dash c)
        \<and> lower_or_digit (last t))"
  proof -
    have "(\<exists>u \<in> set (rmatch (Repeat (Class lower_digit_or_dash) 1 61) t).
             \<exists>d. u = [d] \<and> lower_or_digit d)
       \<longleftrightarrow> (\<exists>n d. 1 \<le> n \<and> n \<le> 61 \<and> n \<le> length t
             \<and> (\<forall>c \<in> set (take n t). lower_digit_or_dash c) \<and> drop n t = [d] \<and> lower_or_digit d)"
      unfolding set_rmatch_Repeat_Class by blast
    also have "\<dots> \<longleftrightarrow> (\<exists>n. 1 \<le> n \<and> n \<le> 61 \<and> Suc n = length t
             \<and> (\<forall>c \<in> set (take n t). lower_digit_or_dash c) \<and> lower_or_digit (last t))"
      unfolding singleton_drop_iff by auto
    finally show ?thesis by simp
  qed
  also have "\<dots> \<longleftrightarrow> 3 \<le> length s \<and> length s \<le> 63 \<and> lower_or_digit (hd s) \<and> lower_or_digit (last s)
     \<and> (\<forall>c \<in> set (butlast (tl s)). lower_digit_or_dash c)"
  proof (cases "t = []")
    case True
    then show ?thesis by (simp add: Cons)
  next
    case False
    have "(\<exists>n. 1 \<le> n \<and> n \<le> 61 \<and> Suc n = length t \<and> (\<forall>c \<in> set (take n t). lower_digit_or_dash c))
       \<longleftrightarrow> (2 \<le> length t \<and> length t \<le> 62 \<and> (\<forall>c \<in> set (take (length t - 1) t). lower_digit_or_dash c))"
      (is "?L \<longleftrightarrow> ?R")
    proof
      assume ?L
      then obtain n where n: "1 \<le> n" "n \<le> 61" "Suc n = length t"
        "\<forall>c \<in> set (take n t). lower_digit_or_dash c" by blast
      from n(3) have "n = length t - 1" by simp
      with n show ?R by auto
    next
      assume ?R
      then show ?L by (intro exI [of _ "length t - 1"]) auto
    qed
    then show ?thesis using False by (auto simp add: Cons butlast_conv_take)
  qed
  finally show ?thesis .
qed

lemma ValidateSubdomain_iff:
  "ValidateSubdomain s \<longleftrightarrow>
     3 \<le> length s \<and> length s \<le> 63 \<and> lower_or_digit (hd s) \<and> lower_or_digit (last s)
     \<and> list_all lower_digit_or_dash (butlast (tl s))"
  by (auto simp add: ValidateSubdomain_def MatchString_subdomainRegex list_all_iff)

lemma length_hextable: "length hextable = 16"
  by (simp add: hextable_def)

lemma high_nibble_bound: "unat (drop_bit 4 (v :: byte)) < 16"
proof -
  have "unat (drop_bit 4 v) = unat v div 2 ^ 4"
    by (simp add: drop_bit_eq_div unat_div)
  moreover have "unat v < 2 ^ 8" using unsigned_less [of v, where ?'a = nat] by simp
  ultimately show ?thesis by simp
qed

lemma low_nibble_bound: "unat ((v :: byte) AND 15) < 16"
proof -
  have "v AND 15 = take_bit 4 v"
    using take_bit_eq_mask [of 4 v] by (simp add: mask_eq_exp_minus_1)
  then have "unat (v AND 15) = take_bit 4 (unat v)"
    by (simp add: unsigned_take_bit_eq)
  also have "\<dots> < 2 ^ 4" by (rule take_bit_nat_less_exp)
  finally show ?thesis by simp
qed

lemma length_EncodeToString: "length (EncodeToString src) = 2 * length src"
  by (induction src) (simp_all add: EncodeToString_def)

lemma set_EncodeToString: "set (EncodeToString src) \<subseteq> set hextable"
proof -
  have "hextable ! unat (drop_bit 4 v) \<in> set hextable" for v :: byte
    by (rule nth_mem) (simp add: length_hextable high_nibble_bound)
  moreover have "hextable ! unat (v AND 15) \<in> set hextable" for v :: byte
    by (rule nth_mem) (simp add: length_hextable low_nibble_bound)
  ultimately show ?thesis
    by (auto simp add: EncodeToString_def)
qed

lemma GenerateID_random:
  "length (GenerateID (Some draw) now_String) = 32
   \<and> set (GenerateID (Some draw) now_String) \<subseteq> set hextable"
  by (simp add: GenerateID_def rand_Read_def length_EncodeToString set_EncodeToString)

lemma GenerateID_fallback:
  "length (GenerateID None now_String) = 2 * length now_String
   \<and> set (GenerateID None now_String) \<subseteq> set hextable"
  by (simp add: GenerateID_def rand_Read_def generateFallbackID_def length_EncodeToString
      set_EncodeToString)

lemma GenerateShortID_fallback:
  "4 \<le> length now_String \<Longrightarrow> length (GenerateShortID None now_String) = 8"
  by (simp add: GenerateShortID_def rand_Read_def generateFallbackID_def length_EncodeToString)

text \<open>
  Claim C8 (request identifiers have 32 hexadecimal characters) does not hold on the
  fallback path. When the random read fails, \<^verbatim>\<open>GenerateID\<close> returns the whole
  hexadecimal encoding of the printed time, two characters for each of its bytes: 88
  characters for the time below. \<^verbatim>\<open>GenerateShortID\<close> cuts the same fallback to its
  own length of 8.
\<close>

theorem GenerateID_fallback_length:
  "GenerateID None ''2009-11-10 23:00:00 +0000 UTC m=+0.000000001''
     = ''323030392d31312d31302032333a30303a3030202b3030303020555443206d3d2b302e303030303030303031''
   \<and> length (GenerateID None ''2009-11-10 23:00:00 +0000 UTC m=+0.000000001'') = 88
   \<and> GenerateShortID None ''2009-11-10 23:00:00 +0000 UTC m=+0.000000001'' = ''32303039''"
  by (simp add: GenerateID_def GenerateShortID_def rand_Read_def generateFallbackID_def
      EncodeToString_def hextable_def)

section \<open>Properties of the registry\<close>

lemma IsReserved_iff:
  "IsReserved s \<longleftrightarrow> s \<in> {''www'', ''api'', ''admin'', ''app'', ''mail'', ''ftp'', ''blog'', ''shop'',
       ''status'', ''health'', ''test'', ''dev'', ''staging''}"
  by (simp add: IsReserved_def reserved_def)

lemma IsReserved_valid: "IsReserved s \<Longrightarrow> ValidateSubdomain s"
  unfolding IsReserved_iff
  by (auto simp add: ValidateSubdomain_iff lower_or_digit_def lower_digit_or_dash_def)

lemma IsReserved_length: "IsReserved s \<Longrightarrow> length s \<le> 7"
  unfolding IsReserved_iff by auto

lemma lookup_in_impl: "DAList.lookup t k = Some v \<longleftrightarrow> (k, v) \<in> set (DAList.impl_of t)"
  by (simp add: DAList.lookup.rep_eq)

lemma is_used_iff: "is_used m s \<longleftrightarrow> (s, True) \<in> set (DAList.impl_of (used m))"
  by (auto simp add: is_used_def lookup_in_impl [symmetric] split: option.splits)

lemma Get_bound_iff: "Get m s \<noteq> None \<longleftrightarrow> s \<in> set (map fst (DAList.impl_of (tunnels m)))"
  by (simp add: Get_def DAList.lookup.rep_eq map_of_eq_None_iff)

lemma in_step_iff: "in_step m \<longleftrightarrow> (\<forall>s. is_used m s \<longleftrightarrow> Get m s \<noteq> None)"
proof -
  have "set (map fst (filter snd (DAList.impl_of (used m)))) = {s. is_used m s}"
    by (force simp add: is_used_iff)
  moreover have "set (map fst (DAList.impl_of (tunnels m))) = {s. Get m s \<noteq> None}"
    using Get_bound_iff [of m] by blast
  ultimately show ?thesis by (auto simp add: in_step_def)
qed

lemma well_named_iff:
  "well_named m \<longleftrightarrow> (\<forall>s. is_used m s \<longrightarrow> ValidateSubdomain s \<and> \<not> IsReserved s)"
  by (auto simp add: well_named_def list_all_iff is_used_iff)

lemma Get_map_of: "Get m = map_of (DAList.impl_of (tunnels m))"
  by (simp add: Get_def fun_eq_iff DAList.lookup.rep_eq)

lemma Count_card: "Count m = card (dom (Get m))"
proof -
  let ?xs = "DAList.impl_of (tunnels m)"
  have "card (dom (map_of ?xs)) = card (set (map fst ?xs))"
    by (simp add: dom_map_of_conv_image_fst)
  also have "\<dots> = length (map fst ?xs)"
    by (rule distinct_card) simp
  finally have "card (dom (map_of ?xs)) = length ?xs" by simp
  moreover have "Get m = map_of ?xs"
    by (simp add: Get_def fun_eq_iff DAList.lookup.rep_eq)
  ultimately show ?thesis by (simp add: Count_def)
qed

lemma length_SubdomainChars: "length SubdomainChars = 36"
  by (simp add: SubdomainChars_def)

lemma SubdomainChars_lower_or_digit: "c \<in> set SubdomainChars \<Longrightarrow> lower_or_digit c"
  by (auto simp add: SubdomainChars_def lower_or_digit_def)

lemma set_GenerateSubdomain_loop: "set (GenerateSubdomain_loop g pos i k) \<subseteq> set SubdomainChars"
proof (induction k arbitrary: pos i)
  case 0
  then show ?case by simp
next
  case (Suc k)
  have a: "SubdomainChars ! (i mod length SubdomainChars) \<in> set SubdomainChars"
    by (rule nth_mem) (simp add: length_SubdomainChars)
  have b: "SubdomainChars ! (raw mod length SubdomainChars) \<in> set SubdomainChars" for raw
    by (rule nth_mem) (simp add: length_SubdomainChars)
  from Suc a b show ?case
    by (auto simp add: rand_Int_def split: option.splits)
qed

lemma length_GenerateSubdomain_loop [simp]: "length (GenerateSubdomain_loop g pos i k) = k"
  by (induction k arbitrary: pos i) simp_all

lemma ValidateSubdomain_generated:
  assumes "3 \<le> k" "k \<le> 63"
  shows "ValidateSubdomain (GenerateSubdomain_loop g pos i k)"
proof -
  let ?s = "GenerateSubdomain_loop g pos i k"
  have ne: "?s \<noteq> []" using assms by (metis length_GenerateSubdomain_loop list.size(3) not_numeral_le_zero)
  have all: "\<forall>c \<in> set ?s. lower_or_digit c"
    using set_GenerateSubdomain_loop [of g pos i k] SubdomainChars_lower_or_digit by blast
  have "hd ?s \<in> set ?s" "last ?s \<in> set ?s" using ne by simp_all
  moreover have "set (butlast (tl ?s)) \<subseteq> set ?s"
    by (meson in_set_butlastD list.set_sel(2) subsetI tl_Nil ne in_set_butlastD)
  ultimately show ?thesis
    using all assms by (auto simp add: ValidateSubdomain_iff list_all_iff lower_digit_or_dash_def)
qed

lemma ValidateSubdomain_GenerateSubdomain:
  "len = 6 \<or> len = 8 \<Longrightarrow> ValidateSubdomain (fst (GenerateSubdomain g pos len))"
  by (auto simp add: GenerateSubdomain_def ValidateSubdomain_generated)

lemma length_GenerateSubdomain:
  "0 < len \<Longrightarrow> length (fst (GenerateSubdomain g pos len)) = nat len"
  by (simp add: GenerateSubdomain_def)

lemma generateUniqueSubdomain_loop_cases:
  "generateUniqueSubdomain_loop m g pos k = (s, pos') \<Longrightarrow>
     (\<not> is_used m s \<and> \<not> IsReserved s \<and> length s = 6)
     \<or> (s, pos') = GenerateSubdomain g (pos + 6 * k) 8"
proof (induction k arbitrary: pos)
  case 0
  then show ?case by simp
next
  case (Suc k)
  obtain s6 p6 where g: "GenerateSubdomain g pos 6 = (s6, p6)" by force
  then have p6: "p6 = pos + 6" and l6: "length s6 = 6"
    by (auto simp add: GenerateSubdomain_def)
  show ?case
  proof (cases "\<not> is_used m s6 \<and> \<not> IsReserved s6")
    case True
    with Suc.prems g l6 show ?thesis by auto
  next
    case False
    with Suc.prems g have "generateUniqueSubdomain_loop m g p6 k = (s, pos')" by auto
    from Suc.IH [OF this] show ?thesis by (simp add: p6 add.assoc add.commute)
  qed
qed

lemma generateUniqueSubdomain_not_reserved:
  "\<not> IsReserved (fst (generateUniqueSubdomain m g pos))"
proof -
  obtain s pos' where r: "generateUniqueSubdomain_loop m g pos maxAttempts = (s, pos')" by force
  from generateUniqueSubdomain_loop_cases [OF r] have "\<not> IsReserved s"
  proof
    assume "(s, pos') = GenerateSubdomain g (pos + 6 * maxAttempts) 8"
    then have "length s = 8"
      using length_GenerateSubdomain [of 8 g "pos + 6 * maxAttempts"] by (metis fst_conv nat_numeral zero_less_numeral)
    then show ?thesis using IsReserved_length [of s] by auto
  qed simp
  with r show ?thesis by (simp add: generateUniqueSubdomain_def)
qed

lemma generateUniqueSubdomain_loop_valid:
  "generateUniqueSubdomain_loop m g pos k = (s, pos') \<Longrightarrow> ValidateSubdomain s"
proof (induction k arbitrary: pos)
  case 0
  then show ?case
    using ValidateSubdomain_GenerateSubdomain [of 8 g pos] by simp
next
  case (Suc k)
  have "ValidateSubdomain (fst (GenerateSubdomain g pos 6))"
    by (rule ValidateSubdomain_GenerateSubdomain) simp
  with Suc show ?case
    by (auto split: prod.splits if_splits)
qed

lemma generateUniqueSubdomain_valid:
  "ValidateSubdomain (fst (generateUniqueSubdomain m g pos))"
proof -
  obtain s pos' where r: "generateUniqueSubdomain_loop m g pos maxAttempts = (s, pos')" by force
  from generateUniqueSubdomain_loop_valid [OF r] r show ?thesis
    by (simp add: generateUniqueSubdomain_def)
qed

lemma Register_error_unchanged:
  "fst (Register g pos now m s) = Inl e \<Longrightarrow> Register g pos now m s = (Inl e, m, pos)"
  by (auto simp add: Register_def split: if_splits prod.splits sum.splits)

lemma Register_custom_ok:
  assumes "s \<noteq> []" "ValidateSubdomain s" "\<not> IsReserved s" "\<not> is_used m s"
  shows "Register g pos now m s =
     (Inr s, m\<lparr>tunnels := DAList.update s (NewConnection s now) (tunnels m),
               used := DAList.update s True (used m)\<rparr>, pos)"
  using assms by (simp add: Register_def)

text \<open>
  Claim C5 (error cases of \<^verbatim>\<open>Register\<close> with a requested subdomain). For every
  registry and every non-empty requested subdomain: a subdomain that fails the syntax check
  is refused with \<^verbatim>\<open>ErrInvalidSubdomain\<close>; a reserved one with
  \<^verbatim>\<open>ErrReservedSubdomain\<close> (every reserved label passes the syntax check); one that
  passes both checks and is marked as used with \<^verbatim>\<open>ErrSubdomainTaken\<close>; and in a
  registry that is in step and well named, as every registry built by the operations is,
  every subdomain that is bound with \<^verbatim>\<open>ErrSubdomainTaken\<close>. In each error case the
  registry returned is the one given. Otherwise the subdomain is returned, bound to a new
  connection and marked as used, and no other binding or mark changes. The syntax check is
  a length from 3 to 63, a first and a last character in \<open>[a-z0-9]\<close> and the
  characters between them in \<open>[a-z0-9-]\<close>; the reserved labels are the thirteen listed.
\<close>

theorem Register_custom_subdomain:
  "s \<noteq> [] \<Longrightarrow>
     (\<not> ValidateSubdomain s \<longrightarrow> Register g pos now m s = (Inl ErrInvalidSubdomain, m, pos))
   \<and> (IsReserved s \<longrightarrow> Register g pos now m s = (Inl ErrReservedSubdomain, m, pos))
   \<and> (ValidateSubdomain s \<and> \<not> IsReserved s \<and> is_used m s \<longrightarrow>
        Register g pos now m s = (Inl ErrSubdomainTaken, m, pos))
   \<and> (in_step m \<and> well_named m \<and> Get m s \<noteq> None \<longrightarrow>
        Register g pos now m s = (Inl ErrSubdomainTaken, m, pos))
   \<and> (ValidateSubdomain s \<and> \<not> IsReserved s \<and> \<not> is_used m s \<longrightarrow>
        fst (Register g pos now m s) = Inr s
        \<and> Get (fst (snd (Register g pos now m s))) s = Some (NewConnection s now)
        \<and> is_used (fst (snd (Register g pos now m s))) s
        \<and> (\<forall>k. k \<noteq> s \<longrightarrow> Get (fst (snd (Register g pos now m s))) k = Get m k
                      \<and> is_used (fst (snd (Register g pos now m s))) k = is_used m k))
   \<and> (ValidateSubdomain s \<longleftrightarrow>
        3 \<le> length s \<and> length s \<le> 63 \<and> lower_or_digit (hd s) \<and> lower_or_digit (last s)
        \<and> list_all lower_digit_or_dash (butlast (tl s)))
   \<and> (IsReserved s \<longleftrightarrow>
        s \<in> {''www'', ''api'', ''admin'', ''app'', ''mail'', ''ftp'', ''blog'', ''shop'',
             ''status'', ''health'', ''test'', ''dev'', ''staging''})"
proof (intro conjI impI)
  assume ne: "s \<noteq> []"
  show "Register g pos now m s = (Inl ErrInvalidSubdomain, m, pos)" if "\<not> ValidateSubdomain s"
    using ne that by (simp add: Register_def)
  show "Register g pos now m s = (Inl ErrReservedSubdomain, m, pos)" if "IsReserved s"
    using ne that IsReserved_valid [OF that] by (simp add: Register_def)
  show "Register g pos now m s = (Inl ErrSubdomainTaken, m, pos)"
    if "ValidateSubdomain s \<and> \<not> IsReserved s \<and> is_used m s"
    using ne that by (simp add: Register_def)
  show "Register g pos now m s = (Inl ErrSubdomainTaken, m, pos)"
    if "in_step m \<and> well_named m \<and> Get m s \<noteq> None"
    using ne that by (simp add: Register_def in_step_iff well_named_iff)
  show "ValidateSubdomain s \<longleftrightarrow>
        3 \<le> length s \<and> length s \<le> 63 \<and> lower_or_digit (hd s) \<and> lower_or_digit (last s)
        \<and> list_all lower_digit_or_dash (butlast (tl s))"
    by (rule ValidateSubdomain_iff)
  show "IsReserved s \<longleftrightarrow>
        s \<in> {''www'', ''api'', ''admin'', ''app'', ''mail'', ''ftp'', ''blog'', ''shop'',
             ''status'', ''health'', ''test'', ''dev'', ''staging''}"
    by (rule IsReserved_iff)
next
  assume ne: "s \<noteq> []" and ok: "ValidateSubdomain s \<and> \<not> IsReserved s \<and> \<not> is_used m s"
  then have r: "Register g pos now m s =
     (Inr s, m\<lparr>tunnels := DAList.update s (NewConnection s now) (tunnels m),
               used := DAList.update s True (used m)\<rparr>, pos)"
    by (simp add: Register_custom_ok)
  show "fst (Register g pos now m s) = Inr s" by (simp add: r)
  show "Get (fst (snd (Register g pos now m s))) s = Some (NewConnection s now)"
    by (simp add: r Get_def)
  show "is_used (fst (snd (Register g pos now m s))) s"
    by (simp add: r is_used_def)
  show "\<forall>k. k \<noteq> s \<longrightarrow> Get (fst (snd (Register g pos now m s))) k = Get m k
                      \<and> is_used (fst (snd (Register g pos now m s))) k = is_used m k"
    by (simp add: r Get_def is_used_def)
qed

theorem Register_custom_subdomain_witness:
  "Register (\<lambda>_. None) 0 100 NewManager ''ab'' = (Inl ErrInvalidSubdomain, NewManager, 0)
   \<and> Register (\<lambda>_. None) 0 100 NewManager ''api'' = (Inl ErrReservedSubdomain, NewManager, 0)
   \<and> fst (Register (\<lambda>_. None) 0 100 NewManager ''myapp'') = Inr ''myapp''
   \<and> Get (fst (snd (Register (\<lambda>_. None) 0 100 NewManager ''myapp''))) ''myapp''
        = Some (NewConnection ''myapp'' 100)
   \<and> Register (\<lambda>_. None) 0 200
        \<lparr>tunnels = DAList.update ''myapp'' (NewConnection ''myapp'' 100) DAList.empty,
         used = DAList.update ''myapp'' True DAList.empty\<rparr> ''myapp''
      = (Inl ErrSubdomainTaken,
         \<lparr>tunnels = DAList.update ''myapp'' (NewConnection ''myapp'' 100) DAList.empty,
          used = DAList.update ''myapp'' True DAList.empty\<rparr>, 0)"
proof -
  let ?g = "\<lambda>_ :: nat. None :: nat option"
  let ?m = "\<lparr>tunnels = DAList.update ''myapp'' (NewConnection ''myapp'' 100) DAList.empty,
         used = DAList.update ''myapp'' True DAList.empty\<rparr>"
  have v1: "\<not> ValidateSubdomain ''ab''"
    by (simp add: ValidateSubdomain_iff)
  have v2: "IsReserved ''api''" by (simp add: IsReserved_iff)
  have v3: "ValidateSubdomain ''myapp'' \<and> \<not> IsReserved ''myapp''"
    by (simp add: ValidateSubdomain_iff IsReserved_iff lower_or_digit_def lower_digit_or_dash_def)
  have u0: "\<not> is_used NewManager ''myapp''" by (simp add: is_used_def NewManager_def)
  have u1: "is_used ?m ''myapp''" by (simp add: is_used_def)
  have s1: "in_step ?m \<and> well_named ?m"
    using v3 by (simp add: in_step_def well_named_def DAList.update.rep_eq DAList.empty.rep_eq)
  have b1: "Get ?m ''myapp'' \<noteq> None" by (simp add: Get_def)
  have a: "Register ?g 0 100 NewManager ''ab'' = (Inl ErrInvalidSubdomain, NewManager, 0)"
    using Register_custom_subdomain [of "''ab''" ?g 0 100 NewManager] v1 by simp
  have b: "Register ?g 0 100 NewManager ''api'' = (Inl ErrReservedSubdomain, NewManager, 0)"
    using Register_custom_subdomain [of "''api''" ?g 0 100 NewManager] v2 by simp
  have c: "fst (Register ?g 0 100 NewManager ''myapp'') = Inr ''myapp''
      \<and> Get (fst (snd (Register ?g 0 100 NewManager ''myapp''))) ''myapp''
        = Some (NewConnection ''myapp'' 100)"
    using Register_custom_subdomain [of "''myapp''" ?g 0 100 NewManager] v3 u0 by simp
  have d: "Register ?g 0 200 ?m ''myapp'' = (Inl ErrSubdomainTaken, ?m, 0)"
    using Register_custom_subdomain [of "''myapp''" ?g 0 200 ?m] v3 u1 s1 b1 by simp
  from a b c d show ?thesis by (simp only: simp_thms)
qed

lemma lookup_fold_delete:
  "DAList.lookup (fold DAList.delete ks t) s = (if s \<in> set ks then None else DAList.lookup t s)"
  by (induction ks arbitrary: t) auto

lemma fold_CleanupStale_remove:
  "distinct ks \<Longrightarrow> \<forall>k \<in> set ks. DAList.lookup (tunnels m) k \<noteq> None \<Longrightarrow>
   fold CleanupStale_remove ks (m, acc) =
     (m\<lparr>tunnels := fold DAList.delete ks (tunnels m), used := fold DAList.delete ks (used m)\<rparr>,
      acc @ map (\<lambda>k. Connection_Close (the (DAList.lookup (tunnels m) k))) ks)"
proof (induction ks arbitrary: m acc)
  case Nil
  then show ?case by simp
next
  case (Cons k ks)
  from Cons.prems obtain tc where tc: "DAList.lookup (tunnels m) k = Some tc" by auto
  let ?m1 = "m\<lparr>tunnels := DAList.delete k (tunnels m), used := DAList.delete k (used m)\<rparr>"
  have step: "CleanupStale_remove k (m, acc) = (?m1, acc @ [Connection_Close tc])"
    by (simp add: CleanupStale_remove_def tc)
  have keep: "DAList.lookup (tunnels ?m1) k' = DAList.lookup (tunnels m) k'" if "k' \<in> set ks" for k'
    using that Cons.prems(1) by auto
  have bound: "\<forall>k' \<in> set ks. DAList.lookup (tunnels ?m1) k' \<noteq> None"
    using keep Cons.prems(2) by simp
  have d: "distinct ks" using Cons.prems(1) by simp
  have same: "map (\<lambda>k'. Connection_Close (the (DAList.lookup (tunnels ?m1) k'))) ks
            = map (\<lambda>k'. Connection_Close (the (DAList.lookup (tunnels m) k'))) ks"
    by (rule map_cong) (simp_all only: keep)
  have "fold CleanupStale_remove (k # ks) (m, acc)
      = fold CleanupStale_remove ks (?m1, acc @ [Connection_Close tc])"
    by (simp add: step)
  also have "\<dots> = (?m1\<lparr>tunnels := fold DAList.delete ks (tunnels ?m1),
                        used := fold DAList.delete ks (used ?m1)\<rparr>,
      (acc @ [Connection_Close tc])
        @ map (\<lambda>k'. Connection_Close (the (DAList.lookup (tunnels ?m1) k'))) ks)"
    by (rule Cons.IH [OF d bound])
  also have "\<dots> = (m\<lparr>tunnels := fold DAList.delete (k # ks) (tunnels m),
                     used := fold DAList.delete (k # ks) (used m)\<rparr>,
      acc @ map (\<lambda>k'. Connection_Close (the (DAList.lookup (tunnels m) k'))) (k # ks))"
    unfolding same by (simp add: tc)
  finally show ?case .
qed

lemma distinct_staleSubdomains: "distinct (staleSubdomains now timeout m)"
  unfolding staleSubdomains_def by (rule distinct_map_filter) simp

lemma set_staleSubdomains:
  "s \<in> set (staleSubdomains now timeout m) \<longleftrightarrow>
     (\<exists>tc. Get m s = Some tc \<and> timeout \<le> time_Since (now s) (LastActive tc))"
  by (force simp add: staleSubdomains_def Get_def lookup_in_impl IsAlive_def)

lemma CleanupStale_eq:
  "CleanupStale now timeout m =
     (length (staleSubdomains now timeout m),
      m\<lparr>tunnels := fold DAList.delete (staleSubdomains now timeout m) (tunnels m),
        used := fold DAList.delete (staleSubdomains now timeout m) (used m)\<rparr>,
      map (\<lambda>k. Connection_Close (the (Get m k))) (staleSubdomains now timeout m))"
proof -
  have b: "\<forall>k \<in> set (staleSubdomains now timeout m). DAList.lookup (tunnels m) k \<noteq> None"
    using set_staleSubdomains [of _ now timeout m] by (auto simp add: Get_def)
  show ?thesis
    using fold_CleanupStale_remove [OF distinct_staleSubdomains b, of "[]"]
    by (simp add: CleanupStale_def Get_def)
qed

lemma closed_Connection_Close: "closed (Connection_Close c)"
  by (simp add: Connection_Close_def)

lemma is_used_fold_delete:
  "is_used (m\<lparr>tunnels := t, used := fold DAList.delete ks (used m)\<rparr>) s
     = (if s \<in> set ks then False else is_used m s)"
  by (simp add: is_used_def lookup_fold_delete)

text \<open>
  Claim C6 (idle eviction). \<^verbatim>\<open>CleanupStale\<close> removes exactly the connections whose
  time since the last activity, at the clock reading taken for them, is at least the
  timeout: such a subdomain is bound no more and marked as used no more, and its
  connection was closed; every other binding and mark is what it was, and no connection was
  closed but those of stale subdomains; the number returned
  is the number of stale subdomains, which is the number of bindings the registry lost and
  the number of connections closed.
\<close>

theorem CleanupStale_evicts:
  assumes "CleanupStale now timeout m = (n, m', closed_conns)"
  shows "(\<forall>s tc. Get m s = Some tc \<and> timeout \<le> time_Since (now s) (LastActive tc) \<longrightarrow>
            Get m' s = None \<and> DAList.lookup (used m') s = None
            \<and> Connection_Close tc \<in> set closed_conns)
       \<and> (\<forall>s tc. Get m s = Some tc \<and> time_Since (now s) (LastActive tc) < timeout \<longrightarrow>
            Get m' s = Some tc \<and> DAList.lookup (used m') s = DAList.lookup (used m) s)
       \<and> (\<forall>s. Get m s = None \<longrightarrow>
            Get m' s = None \<and> DAList.lookup (used m') s = DAList.lookup (used m) s)
       \<and> n = card {s. \<exists>tc. Get m s = Some tc \<and> timeout \<le> time_Since (now s) (LastActive tc)}
       \<and> Count m' + n = Count m
       \<and> length closed_conns = n
       \<and> (\<forall>c \<in> set closed_conns.
            closed c
            \<and> (\<exists>s tc. Get m s = Some tc \<and> timeout \<le> time_Since (now s) (LastActive tc)
                  \<and> c = Connection_Close tc))"
proof -
  let ?ks = "staleSubdomains now timeout m"
  let ?stale = "{s. \<exists>tc. Get m s = Some tc \<and> timeout \<le> time_Since (now s) (LastActive tc)}"
  have ks: "set ?ks = ?stale"
    using set_staleSubdomains [of _ now timeout m] by blast
  from assms have n: "n = length ?ks"
    and m': "m' = m\<lparr>tunnels := fold DAList.delete ?ks (tunnels m),
                      used := fold DAList.delete ?ks (used m)\<rparr>"
    and cl: "closed_conns = map (\<lambda>k. Connection_Close (the (Get m k))) ?ks"
    by (simp_all add: CleanupStale_eq)
  have get: "Get m' s = (if s \<in> ?stale then None else Get m s)" for s
    unfolding ks [symmetric] by (simp add: m' Get_def lookup_fold_delete)
  have usd: "DAList.lookup (used m') s = (if s \<in> ?stale then None else DAList.lookup (used m) s)" for s
    unfolding ks [symmetric] by (simp add: m' lookup_fold_delete)
  have card: "n = card ?stale"
    using distinct_card [OF distinct_staleSubdomains, of now timeout m] by (simp add: n ks)
  have "dom (Get m') = dom (Get m) - ?stale"
    by (auto simp add: get dom_def)
  moreover have "?stale \<subseteq> dom (Get m)" by auto
  moreover have "finite ?stale" using ks [symmetric] by simp
  moreover have fin: "finite (dom (Get m))"
    by (simp add: Get_map_of finite_dom_map_of)
  ultimately have "card (dom (Get m')) + card ?stale = card (dom (Get m))"
    using card_Diff_subset [of ?stale "dom (Get m)"] card_mono [of "dom (Get m)" ?stale]
    by simp
  then have count: "Count m' + n = Count m"
    by (simp add: Count_card card)
  have a: "Connection_Close tc \<in> set closed_conns"
    if "Get m s = Some tc" "timeout \<le> time_Since (now s) (LastActive tc)" for s tc
  proof -
    from that have "s \<in> set ?ks" using ks by blast
    then have "Connection_Close (the (Get m s)) \<in> set closed_conns"
      unfolding cl by simp
    with that show ?thesis by simp
  qed
  have c: "\<forall>c \<in> set closed_conns.
            closed c
            \<and> (\<exists>s tc. Get m s = Some tc \<and> timeout \<le> time_Since (now s) (LastActive tc)
                  \<and> c = Connection_Close tc)"
  proof
    fix c
    assume "c \<in> set closed_conns"
    then obtain k where k: "k \<in> set ?ks" "c = Connection_Close (the (Get m k))"
      unfolding cl by auto
    from k(1) obtain tc where "Get m k = Some tc" "timeout \<le> time_Since (now k) (LastActive tc)"
      using ks by blast
    with k(2) show "closed c
            \<and> (\<exists>s tc. Get m s = Some tc \<and> timeout \<le> time_Since (now s) (LastActive tc)
                  \<and> c = Connection_Close tc)"
      by (auto simp add: closed_Connection_Close)
  qed
  have len: "length closed_conns = n" by (simp add: cl n)
  have p1: "\<forall>s tc. Get m s = Some tc \<and> timeout \<le> time_Since (now s) (LastActive tc) \<longrightarrow>
            Get m' s = None \<and> DAList.lookup (used m') s = None
            \<and> Connection_Close tc \<in> set closed_conns"
    using a by (auto simp add: get usd)
  have p2: "\<forall>s tc. Get m s = Some tc \<and> time_Since (now s) (LastActive tc) < timeout \<longrightarrow>
            Get m' s = Some tc \<and> DAList.lookup (used m') s = DAList.lookup (used m) s"
    by (auto simp add: get usd)
  have p3: "\<forall>s. Get m s = None \<longrightarrow>
            Get m' s = None \<and> DAList.lookup (used m') s = DAList.lookup (used m) s"
    by (auto simp add: get usd)
  from p1 p2 p3 card count len c show ?thesis by blast
qed

theorem CleanupStale_evicts_witness:
  "CleanupStale (\<lambda>_. 120) 90
     \<lparr>tunnels = DAList.update ''stale'' (NewConnection ''stale'' 0)
                  (DAList.update ''fresh'' (NewConnection ''fresh'' 100) DAList.empty),
      used = DAList.update ''stale'' True (DAList.update ''fresh'' True DAList.empty)\<rparr>
   = (1,
      \<lparr>tunnels = DAList.update ''fresh'' (NewConnection ''fresh'' 100) DAList.empty,
       used = DAList.update ''fresh'' True DAList.empty\<rparr>,
      [\<lparr>Subdomain = ''stale'', LastActive = 0, closed = True\<rparr>])
   \<and> Get \<lparr>tunnels = DAList.update ''fresh'' (NewConnection ''fresh'' 100) DAList.empty,
          used = DAList.update ''fresh'' True DAList.empty\<rparr> ''stale'' = None
   \<and> Get \<lparr>tunnels = DAList.update ''fresh'' (NewConnection ''fresh'' 100) DAList.empty,
          used = DAList.update ''fresh'' True DAList.empty\<rparr> ''fresh''
       = Some (NewConnection ''fresh'' 100)
   \<and> Count \<lparr>tunnels = DAList.update ''fresh'' (NewConnection ''fresh'' 100) DAList.empty,
          used = DAList.update ''fresh'' True DAList.empty\<rparr> + 1
       = Count \<lparr>tunnels = DAList.update ''stale'' (NewConnection ''stale'' 0)
                  (DAList.update ''fresh'' (NewConnection ''fresh'' 100) DAList.empty),
      used = DAList.update ''stale'' True (DAList.update ''fresh'' True DAList.empty)\<rparr>"
proof -
  let ?m = "\<lparr>tunnels = DAList.update ''stale'' (NewConnection ''stale'' 0)
                  (DAList.update ''fresh'' (NewConnection ''fresh'' 100) DAList.empty),
      used = DAList.update ''stale'' True (DAList.update ''fresh'' True DAList.empty)\<rparr>"
  let ?m' = "\<lparr>tunnels = DAList.update ''fresh'' (NewConnection ''fresh'' 100) DAList.empty,
       used = DAList.update ''fresh'' True DAList.empty\<rparr>"
  have d1: "DAList.delete ''stale'' (DAList.update ''stale'' c (DAList.update ''fresh'' c' DAList.empty))
     = DAList.update ''fresh'' c' DAList.empty" for c c' :: 'a
    by (simp add: DAList.alist_eq_iff DAList.delete.rep_eq DAList.update.rep_eq DAList.empty.rep_eq)
  have e: "CleanupStale (\<lambda>_. 120) 90 ?m =
      (1, ?m', [\<lparr>Subdomain = ''stale'', LastActive = 0, closed = True\<rparr>])"
    by (simp add: CleanupStale_def staleSubdomains_def CleanupStale_remove_def
        DAList.update.rep_eq DAList.empty.rep_eq IsAlive_def time_Since_def
        maxDuration_def minDuration_def NewConnection_def Connection_Close_def d1)
  have g1: "Get ?m ''stale'' = Some (NewConnection ''stale'' 0)
      \<and> 90 \<le> time_Since 120 (LastActive (NewConnection ''stale'' 0))"
    by (simp add: Get_def time_Since_def maxDuration_def minDuration_def NewConnection_def)
  have g2: "Get ?m ''fresh'' = Some (NewConnection ''fresh'' 100)
      \<and> time_Since 120 (LastActive (NewConnection ''fresh'' 100)) < 90"
    by (simp add: Get_def time_Since_def maxDuration_def minDuration_def NewConnection_def)
  from CleanupStale_evicts [OF e] g1 have a: "Get ?m' ''stale'' = None" by blast
  from CleanupStale_evicts [OF e] g2 have b: "Get ?m' ''fresh'' = Some (NewConnection ''fresh'' 100)"
    by blast
  from CleanupStale_evicts [OF e] have c: "Count ?m' + 1 = Count ?m" by blast
  from e a b c show ?thesis by (simp only: simp_thms)
qed

lemma is_used_Register:
  "fst (Register g pos now m s) = Inr t \<Longrightarrow>
     is_used (fst (snd (Register g pos now m s))) k = (k = t \<or> is_used m k)"
  by (auto simp add: Register_def is_used_def DAList.lookup_update
      split: if_splits prod.splits sum.splits)

lemma Get_Register:
  "fst (Register g pos now m s) = Inr t \<Longrightarrow>
     (Get (fst (snd (Register g pos now m s))) k \<noteq> None) = (k = t \<or> Get m k \<noteq> None)"
  by (auto simp add: Register_def Get_def DAList.lookup_update
      split: if_splits prod.splits sum.splits)

lemma Register_result_valid:
  "fst (Register g pos now m s) = Inr t \<Longrightarrow> ValidateSubdomain t \<and> \<not> IsReserved t"
  using generateUniqueSubdomain_valid [of m g pos] generateUniqueSubdomain_not_reserved [of m g pos]
  by (auto simp add: Register_def split: if_splits prod.splits sum.splits)

lemma in_step_NewManager: "in_step NewManager \<and> well_named NewManager"
  by (simp add: in_step_def well_named_def NewManager_def DAList.empty.rep_eq)

lemma in_step_Register:
  assumes "in_step m" "well_named m"
  shows "in_step (fst (snd (Register g pos now m s)))
       \<and> well_named (fst (snd (Register g pos now m s)))"
proof (cases "fst (Register g pos now m s)")
  case (Inl e)
  with assms Register_error_unchanged [OF Inl] show ?thesis by simp
next
  case (Inr t)
  with assms is_used_Register [OF Inr] Get_Register [OF Inr] Register_result_valid [OF Inr]
  show ?thesis by (auto simp add: in_step_iff well_named_iff)
qed

lemma in_step_Unregister:
  "in_step m \<Longrightarrow> well_named m \<Longrightarrow>
     in_step (fst (Unregister m s)) \<and> well_named (fst (Unregister m s))"
  by (auto simp add: in_step_iff well_named_iff Unregister_def is_used_def Get_def
      split: option.splits if_splits)

lemma in_step_CleanupStale:
  "in_step m \<Longrightarrow> well_named m \<Longrightarrow>
     in_step (fst (snd (CleanupStale now timeout m)))
     \<and> well_named (fst (snd (CleanupStale now timeout m)))"
  by (auto simp add: in_step_iff well_named_iff CleanupStale_eq is_used_def Get_def
      lookup_fold_delete split: option.splits if_splits)

lemma GenerateSubdomain_loop_fail:
  "i + k \<le> 36 \<Longrightarrow> GenerateSubdomain_loop (\<lambda>_. None) pos i k = take k (drop i SubdomainChars)"
proof (induction k arbitrary: pos i)
  case 0
  then show ?case by simp
next
  case (Suc k)
  have l: "length SubdomainChars = 36" by (simp add: SubdomainChars_def)
  from Suc.prems have i: "i < 36" by simp
  then have "drop i SubdomainChars = SubdomainChars ! i # drop (Suc i) SubdomainChars"
    by (simp add: Cons_nth_drop_Suc l)
  with Suc i show ?case by (simp add: rand_Int_def l)
qed

lemma GenerateSubdomain_fail6: "GenerateSubdomain (\<lambda>_. None) pos 6 = (''abcdef'', pos + 6)"
  by (simp add: GenerateSubdomain_def GenerateSubdomain_loop_fail) (simp add: SubdomainChars_def)

lemma GenerateSubdomain_fail8: "GenerateSubdomain (\<lambda>_. None) pos 8 = (''abcdefgh'', pos + 8)"
  by (simp add: GenerateSubdomain_def GenerateSubdomain_loop_fail) (simp add: SubdomainChars_def)

lemma GenerateSubdomain_loop_const:
  "n < 36 \<Longrightarrow> GenerateSubdomain_loop (\<lambda>_. Some n) pos i k = replicate k (SubdomainChars ! n)"
  by (induction k arbitrary: pos i) (simp_all add: rand_Int_def SubdomainChars_def)

lemma GenerateSubdomain_zero6: "GenerateSubdomain (\<lambda>_. Some 0) pos 6 = (''aaaaaa'', pos + 6)"
  by (simp add: GenerateSubdomain_def GenerateSubdomain_loop_const) (simp add: SubdomainChars_def eval_nat_numeral)

lemma GenerateSubdomain_zero8: "GenerateSubdomain (\<lambda>_. Some 0) pos 8 = (''aaaaaaaa'', pos + 8)"
  by (simp add: GenerateSubdomain_def GenerateSubdomain_loop_const) (simp add: SubdomainChars_def eval_nat_numeral)

lemma all_attempts_collide:
  assumes "\<And>p. GenerateSubdomain g p 6 = (s6, p + 6)" "is_used m s6 \<or> IsReserved s6"
  shows "generateUniqueSubdomain_loop m g pos k = GenerateSubdomain g (pos + 6 * k) 8"
  using assms by (induction k arbitrary: pos) (auto simp add: add.assoc)

lemma first_attempt_free:
  assumes "GenerateSubdomain g pos 6 = (s6, pos')" "\<not> is_used m s6" "\<not> IsReserved s6"
  shows "generateUniqueSubdomain m g pos = (s6, pos')"
  using assms by (simp add: generateUniqueSubdomain_def maxAttempts_def eval_nat_numeral)

text \<open>
  Claim C2 (uniqueness of automatically assigned subdomains) does not hold of the code.
  The ten attempts of length 6 are checked against the used and the reserved subdomains,
  but the fallback of length 8 is returned unchecked. With a failing random source the
  generator always produces \<open>abcdef\<close> and then \<open>abcdefgh\<close>: of three automatic
  registrations on a new registry the second and the third are both assigned
  \<open>abcdefgh\<close>, and the third replaces the connection the second had bound. With a
  healthy source that keeps drawing index 0, a registry in which \<open>aaaaaa\<close> and
  \<open>aaaaaaaa\<close> are bound assigns \<open>aaaaaaaa\<close> again.
\<close>

theorem auto_registration_reuses_bound_subdomain:
  "Register (\<lambda>_. None) 0 100 NewManager [] =
     (Inr ''abcdef'',
      \<lparr>tunnels = DAList.update ''abcdef'' (NewConnection ''abcdef'' 100) DAList.empty,
       used = DAList.update ''abcdef'' True DAList.empty\<rparr>, 6)
   \<and> Register (\<lambda>_. None) 6 200
       \<lparr>tunnels = DAList.update ''abcdef'' (NewConnection ''abcdef'' 100) DAList.empty,
        used = DAList.update ''abcdef'' True DAList.empty\<rparr> [] =
     (Inr ''abcdefgh'',
      \<lparr>tunnels = DAList.update ''abcdefgh'' (NewConnection ''abcdefgh'' 200)
                  (DAList.update ''abcdef'' (NewConnection ''abcdef'' 100) DAList.empty),
       used = DAList.update ''abcdefgh'' True (DAList.update ''abcdef'' True DAList.empty)\<rparr>, 74)
   \<and> Register (\<lambda>_. None) 74 300
       \<lparr>tunnels = DAList.update ''abcdefgh'' (NewConnection ''abcdefgh'' 200)
                  (DAList.update ''abcdef'' (NewConnection ''abcdef'' 100) DAList.empty),
        used = DAList.update ''abcdefgh'' True (DAList.update ''abcdef'' True DAList.empty)\<rparr> [] =
     (Inr ''abcdefgh'',
      \<lparr>tunnels = DAList.update ''abcdefgh'' (NewConnection ''abcdefgh'' 300)
                  (DAList.update ''abcdef'' (NewConnection ''abcdef'' 100) DAList.empty),
       used = DAList.update ''abcdefgh'' True (DAList.update ''abcdef'' True DAList.empty)\<rparr>, 142)
   \<and> Get \<lparr>tunnels = DAList.update ''abcdefgh'' (NewConnection ''abcdefgh'' 200)
                  (DAList.update ''abcdef'' (NewConnection ''abcdef'' 100) DAList.empty),
        used = DAList.update ''abcdefgh'' True (DAList.update ''abcdef'' True DAList.empty)\<rparr>
        ''abcdefgh'' = Some (NewConnection ''abcdefgh'' 200)
   \<and> Register (\<lambda>_. Some 0) 0 300
       \<lparr>tunnels = DAList.update ''aaaaaaaa'' (NewConnection ''aaaaaaaa'' 200)
                  (DAList.update ''aaaaaa'' (NewConnection ''aaaaaa'' 100) DAList.empty),
        used = DAList.update ''aaaaaaaa'' True (DAList.update ''aaaaaa'' True DAList.empty)\<rparr> [] =
     (Inr ''aaaaaaaa'',
      \<lparr>tunnels = DAList.update ''aaaaaaaa'' (NewConnection ''aaaaaaaa'' 300)
                  (DAList.update ''aaaaaa'' (NewConnection ''aaaaaa'' 100) DAList.empty),
       used = DAList.update ''aaaaaaaa'' True (DAList.update ''aaaaaa'' True DAList.empty)\<rparr>, 68)"
proof -
  let ?g = "\<lambda>_ :: nat. None :: nat option"
  let ?m1 = "\<lparr>tunnels = DAList.update ''abcdef'' (NewConnection ''abcdef'' 100) DAList.empty,
       used = DAList.update ''abcdef'' True DAList.empty\<rparr>"
  let ?m2 = "\<lparr>tunnels = DAList.update ''abcdefgh'' (NewConnection ''abcdefgh'' 200)
                  (DAList.update ''abcdef'' (NewConnection ''abcdef'' 100) DAList.empty),
       used = DAList.update ''abcdefgh'' True (DAList.update ''abcdef'' True DAList.empty)\<rparr>"
  have free: "\<not> IsReserved ''abcdef''" by (simp add: IsReserved_iff)
  have g1: "generateUniqueSubdomain NewManager ?g 0 = (''abcdef'', 6)"
    using first_attempt_free [of ?g 0 "''abcdef''" 6 NewManager] free
    by (simp add: GenerateSubdomain_fail6 is_used_def NewManager_def)
  have g2: "generateUniqueSubdomain ?m1 ?g 6 = (''abcdefgh'', 74)"
    using all_attempts_collide [of ?g "''abcdef''" ?m1 6 10]
    by (simp add: GenerateSubdomain_fail6 GenerateSubdomain_fail8 is_used_def
        generateUniqueSubdomain_def maxAttempts_def)
  have g3: "generateUniqueSubdomain ?m2 ?g 74 = (''abcdefgh'', 142)"
    using all_attempts_collide [of ?g "''abcdef''" ?m2 74 10]
    by (simp add: GenerateSubdomain_fail6 GenerateSubdomain_fail8 is_used_def
        generateUniqueSubdomain_def maxAttempts_def)
  have r1: "Register ?g 0 100 NewManager [] = (Inr ''abcdef'', ?m1, 6)"
    by (simp add: Register_def g1) (simp add: NewManager_def)
  have r2: "Register ?g 6 200 ?m1 [] = (Inr ''abcdefgh'', ?m2, 74)"
    by (simp add: Register_def g2)
  have r3: "Register ?g 74 300 ?m2 [] =
     (Inr ''abcdefgh'',
      \<lparr>tunnels = DAList.update ''abcdefgh'' (NewConnection ''abcdefgh'' 300)
                  (DAList.update ''abcdef'' (NewConnection ''abcdef'' 100) DAList.empty),
       used = DAList.update ''abcdefgh'' True (DAList.update ''abcdef'' True DAList.empty)\<rparr>, 142)"
    by (simp add: Register_def g3)
  have b: "Get ?m2 ''abcdefgh'' = Some (NewConnection ''abcdefgh'' 200)"
    by (simp add: Get_def)
  let ?z = "\<lambda>_ :: nat. Some (0 :: nat)"
  let ?b2 = "\<lparr>tunnels = DAList.update ''aaaaaaaa'' (NewConnection ''aaaaaaaa'' 200)
                  (DAList.update ''aaaaaa'' (NewConnection ''aaaaaa'' 100) DAList.empty),
        used = DAList.update ''aaaaaaaa'' True (DAList.update ''aaaaaa'' True DAList.empty)\<rparr>"
  have g4: "generateUniqueSubdomain ?b2 ?z 0 = (''aaaaaaaa'', 68)"
    using all_attempts_collide [of ?z "''aaaaaa''" ?b2 0 10]
    by (simp add: GenerateSubdomain_zero6 GenerateSubdomain_zero8 is_used_def
        generateUniqueSubdomain_def maxAttempts_def)
  have r4: "Register ?z 0 300 ?b2 [] =
     (Inr ''aaaaaaaa'',
      \<lparr>tunnels = DAList.update ''aaaaaaaa'' (NewConnection ''aaaaaaaa'' 300)
                  (DAList.update ''aaaaaa'' (NewConnection ''aaaaaa'' 100) DAList.empty),
       used = DAList.update ''aaaaaaaa'' True (DAList.update ''aaaaaa'' True DAList.empty)\<rparr>, 68)"
    by (simp add: Register_def g4)
  from r1 r2 r3 b r4 show ?thesis by (simp only: simp_thms)
qed

section \<open>Properties of the response handler\<close>

lemma SendResponse_keys:
  "map fst (DAList.impl_of (channels (fst (SendResponse h requestID resp drained))))
     = map fst (DAList.impl_of (channels h))"
proof -
  have "map fst (AList.update k v xs) = map fst xs" if "map_of xs k = Some u" for k v u and xs :: "(string \<times> responseChanEntry option) list"
    using that by (induction xs) (auto split: if_splits)
  then show ?thesis
    by (auto simp add: SendResponse_def DAList.update.rep_eq DAList.lookup.rep_eq split: option.splits)
qed

text \<open>
  Claim C9 (a response for an unknown request is dropped). When the request identifier
  has no entry in the map of pending channels (no key, or a nil entry),
  \<^verbatim>\<open>SendResponse\<close> ends with the not-found warning and returns the handler it was
  given: nothing was delivered to any channel, no entry was removed or changed, and the
  number of pending entries is the same.
\<close>

theorem SendResponse_unknown_request:
  "DAList.lookup (channels h) requestID = None \<or> DAList.lookup (channels h) requestID = Some None \<Longrightarrow>
     SendResponse h requestID resp drained = (h, NotFound)
     \<and> channels (fst (SendResponse h requestID resp drained)) = channels h
     \<and> GetPendingCount (fst (SendResponse h requestID resp drained)) = GetPendingCount h"
  by (auto simp add: SendResponse_def)

theorem SendResponse_unknown_request_witness:
  "DAList.lookup (channels (CreateResponseChan NewResponseHandler ''req-1'' 100)) ''req-2'' = None
   \<and> SendResponse (CreateResponseChan NewResponseHandler ''req-1'' 100) ''req-2''
        \<lparr>StatusCode = 200, Status = ''200 OK'', Headers = [], Body = []\<rparr> False
      = (CreateResponseChan NewResponseHandler ''req-1'' 100, NotFound)
   \<and> GetPendingCount (CreateResponseChan NewResponseHandler ''req-1'' 100) = 1
   \<and> snd (SendResponse (CreateResponseChan NewResponseHandler ''req-1'' 100) ''req-1''
        \<lparr>StatusCode = 200, Status = ''200 OK'', Headers = [], Body = []\<rparr> False) = Sent"
proof -
  let ?h = "CreateResponseChan NewResponseHandler ''req-1'' 100"
  let ?r = "\<lparr>StatusCode = 200, Status = ''200 OK'', Headers = [], Body = []\<rparr>"
  have a: "DAList.lookup (channels ?h) ''req-2'' = None"
    by (simp add: CreateResponseChan_def NewResponseHandler_def)
  have c: "GetPendingCount ?h = 1"
    by (simp add: GetPendingCount_def CreateResponseChan_def NewResponseHandler_def
        DAList.update.rep_eq DAList.empty.rep_eq)
  have d: "snd (SendResponse ?h ''req-1'' ?r False) = Sent"
    by (simp add: SendResponse_def CreateResponseChan_def NewResponseHandler_def)
  from SendResponse_unknown_request [of ?h "''req-2''" ?r False] a
  have b: "SendResponse ?h ''req-2'' ?r False = (?h, NotFound)" by simp
  from a b c d show ?thesis by (simp only: simp_thms)
qed

section \<open>Properties of the batching writer\<close>

lemma first_error_append:
  "first_error (xs @ ys) = (case first_error xs of None \<Rightarrow> first_error ys | Some err \<Rightarrow> Some err)"
  by (induction xs rule: first_error.induct) simp_all

lemma flush_frame_effect:
  assumes "flush_frame Write frame (w, pool) = (w', pool')"
  shows "write_log w' = write_log w @ [fst (WriteFrame Write (conn w) frame)]"
    and "conn w' = snd (WriteFrame Write (conn w) frame)"
    and "onWriteError w' = onWriteError w"
    and "errOnce w \<Longrightarrow> errOnce w' \<and> writeErr w' = writeErr w \<and> handler_calls w' = handler_calls w
           \<and> w_closed w' = w_closed w"
    and "\<not> errOnce w \<Longrightarrow> fst (WriteFrame Write (conn w) frame) = None \<Longrightarrow>
           \<not> errOnce w' \<and> writeErr w' = writeErr w \<and> handler_calls w' = handler_calls w
           \<and> w_closed w' = w_closed w"
    and "\<not> errOnce w \<Longrightarrow> fst (WriteFrame Write (conn w) frame) = Some err \<Longrightarrow>
           errOnce w' \<and> writeErr w' = Some err \<and> w_closed w'
           \<and> handler_calls w' = handler_calls w
                @ (case onWriteError w of None \<Rightarrow> [] | Some h \<Rightarrow> [(h, err)])"
  using assms
  by (auto simp add: flush_frame_def errOnce_Do_def split: prod.splits option.splits if_splits)

lemma fold_flush_frame_effect:
  assumes "fold (flush_frame Write) frames (w, pool) = (w', pool')"
  shows "write_log w' = write_log w @ flush_results Write (conn w) frames
       \<and> onWriteError w' = onWriteError w
       \<and> (errOnce w \<longrightarrow> errOnce w' \<and> writeErr w' = writeErr w
              \<and> handler_calls w' = handler_calls w \<and> w_closed w' = w_closed w)
       \<and> (\<not> errOnce w \<longrightarrow>
            (case first_error (flush_results Write (conn w) frames) of
               None \<Rightarrow> \<not> errOnce w' \<and> writeErr w' = writeErr w
                       \<and> handler_calls w' = handler_calls w \<and> w_closed w' = w_closed w
             | Some err \<Rightarrow> errOnce w' \<and> writeErr w' = Some err \<and> w_closed w'
                       \<and> handler_calls w' = handler_calls w
                            @ (case onWriteError w of None \<Rightarrow> [] | Some h \<Rightarrow> [(h, err)])))"
  using assms
proof (induction frames arbitrary: w pool)
  case Nil
  then show ?case by simp
next
  case (Cons frame frames)
  obtain w1 pool1 where s: "flush_frame Write frame (w, pool) = (w1, pool1)" by force
  with Cons.prems have r: "fold (flush_frame Write) frames (w1, pool1) = (w', pool')" by simp
  note e = flush_frame_effect [OF s]
  note ih = Cons.IH [OF r]
  show ?case
  proof (cases "errOnce w")
    case True
    with e(4) have "errOnce w1" by simp
    with ih e True show ?thesis by simp
  next
    case False
    show ?thesis
    proof (cases "fst (WriteFrame Write (conn w) frame)")
      case None
      with e(5) [OF False] have "\<not> errOnce w1" by simp
      with ih e(1,2,3) e(5) [OF False None] False None show ?thesis
        by (simp split: option.splits)
    next
      case (Some err)
      with e(6) [OF False] have "errOnce w1" by simp
      with ih e(1,2,3) e(6) [OF False Some] False Some show ?thesis
        by simp
    qed
  qed
qed

lemma flushBatchLocked_effect:
  assumes "FrameWriter5_flushBatchLocked Write (w, pool) = (w', pool')"
  shows "write_log w' = write_log w @ flush_results Write (conn w) (batch w)
       \<and> onWriteError w' = onWriteError w
       \<and> (errOnce w \<longrightarrow> errOnce w' \<and> writeErr w' = writeErr w
              \<and> handler_calls w' = handler_calls w \<and> w_closed w' = w_closed w)
       \<and> (\<not> errOnce w \<longrightarrow>
            (case first_error (flush_results Write (conn w) (batch w)) of
               None \<Rightarrow> \<not> errOnce w' \<and> writeErr w' = writeErr w
                       \<and> handler_calls w' = handler_calls w \<and> w_closed w' = w_closed w
             | Some err \<Rightarrow> errOnce w' \<and> writeErr w' = Some err \<and> w_closed w'
                       \<and> handler_calls w' = handler_calls w
                            @ (case onWriteError w of None \<Rightarrow> [] | Some h \<Rightarrow> [(h, err)])))"
proof (cases "batch w = []")
  case True
  with assms show ?thesis by (simp add: FrameWriter5_flushBatchLocked_def)
next
  case False
  obtain w1 pool1 where f: "fold (flush_frame Write) (batch w) (w, pool) = (w1, pool1)" by force
  with assms False have "w' = w1\<lparr>batch := []\<rparr>"
    by (simp add: FrameWriter5_flushBatchLocked_def)
  with fold_flush_frame_effect [OF f] show ?thesis by (simp split: option.splits)
qed

lemma latch_inv_unlatched:
  "latch_inv w \<Longrightarrow> \<not> errOnce w \<Longrightarrow> writeErr w = None \<and> handler_calls w = []"
  by (cases "handler_calls w") (auto simp add: latch_inv_def)

lemma latch_inv_flushBatchLocked:
  assumes "latch_inv w"
  shows "latch_inv (fst (FrameWriter5_flushBatchLocked Write (w, pool)))"
proof -
  obtain w' pool' where f: "FrameWriter5_flushBatchLocked Write (w, pool) = (w', pool')" by force
  note e = flushBatchLocked_effect [OF f]
  show ?thesis
  proof (cases "errOnce w")
    case True
    with assms obtain err where err: "first_error (write_log w) = Some err"
      by (cases "first_error (write_log w)") (auto simp add: latch_inv_def)
    with True e assms show ?thesis
      by (auto simp add: f latch_inv_def first_error_append)
  next
    case False
    with e assms latch_inv_unlatched [OF assms False] show ?thesis
      by (cases "first_error (flush_results Write (conn w) (batch w))")
         (auto simp add: f latch_inv_def first_error_append split: option.splits)
  qed
qed

lemma flushBatchLocked_latched:
  "errOnce w \<Longrightarrow>
     errOnce (fst (FrameWriter5_flushBatchLocked Write (w, pool)))
     \<and> writeErr (fst (FrameWriter5_flushBatchLocked Write (w, pool))) = writeErr w
     \<and> handler_calls (fst (FrameWriter5_flushBatchLocked Write (w, pool))) = handler_calls w
     \<and> w_closed (fst (FrameWriter5_flushBatchLocked Write (w, pool))) = w_closed w"
  using flushBatchLocked_effect [of Write w pool] by (cases "FrameWriter5_flushBatchLocked Write (w, pool)") simp

lemma latch_inv_cong:
  "write_log w' = write_log w \<Longrightarrow> writeErr w' = writeErr w \<Longrightarrow> errOnce w' = errOnce w \<Longrightarrow>
   handler_calls w' = handler_calls w \<Longrightarrow> (w_closed w \<longrightarrow> w_closed w') \<Longrightarrow>
   latch_inv w \<Longrightarrow> latch_inv w'"
  unfolding latch_inv_def by (elim conjE) simp

lemma latch_inv_WriteFrame:
  "latch_inv w \<Longrightarrow> latch_inv (snd (FrameWriter5_WriteFrame w frame pick_send loop_waiting))"
  by (rule latch_inv_cong [of _ w])
     (simp_all add: FrameWriter5_WriteFrame_def chan_send_def Let_def)

lemma latch_inv_Close: "latch_inv w \<Longrightarrow> latch_inv (fst (FrameWriter5_Close (w, pool)))"
  by (rule latch_inv_cong [of _ w]) (simp_all add: FrameWriter5_Close_def)

lemma latch_inv_SetWriteErrorHandler: "latch_inv w \<Longrightarrow> latch_inv (SetWriteErrorHandler w handler)"
  by (rule latch_inv_cong [of _ w]) (simp_all add: SetWriteErrorHandler_def)

lemma latch_inv_Flush:
  "latch_inv w \<Longrightarrow> FrameWriter5_Flush Write (w, pool) = Some (w', pool') \<Longrightarrow> latch_inv w'"
proof -
  assume i: "latch_inv w" and f: "FrameWriter5_Flush Write (w, pool) = Some (w', pool')"
  have j: "latch_inv (w\<lparr>batch := batch w @ queue w @ parked w, queue := [], parked := [],
                          resumed := resumed w @ map (\<lambda>p. (p, Returned None)) (parked w)\<rparr>)"
    by (rule latch_inv_cong [OF _ _ _ _ _ i]) simp_all
  from f i latch_inv_flushBatchLocked [OF j, of Write pool] show ?thesis
    by (auto simp add: FrameWriter5_Flush_def split: if_splits)
qed

lemma latch_inv_loop_exited: "latch_inv (w\<lparr>loop_exited := b\<rparr>) = latch_inv w"
  by (simp add: latch_inv_def)

lemma latch_inv_loop_inbox: "latch_inv (w\<lparr>loop_inbox := b\<rparr>) = latch_inv w"
  by (simp add: latch_inv_def)

lemma chan_recv_latch:
  "chan_recv w = Some (frame, w1) \<Longrightarrow>
     write_log w1 = write_log w \<and> writeErr w1 = writeErr w \<and> errOnce w1 = errOnce w
     \<and> handler_calls w1 = handler_calls w \<and> w_closed w1 = w_closed w"
  by (auto simp add: chan_recv_def split: list.splits)

lemma latch_inv_chan_recv: "latch_inv w \<Longrightarrow> chan_recv w = Some (frame, w1) \<Longrightarrow> latch_inv w1"
  using chan_recv_latch [of w frame w1] by (intro latch_inv_cong [of w1 w]) simp_all

lemma latch_inv_writeLoop_received:
  assumes i: "latch_inv w"
  shows "latch_inv (fst (writeLoop_received Write frame (w, pool)))"
proof -
  have j: "latch_inv (w\<lparr>batch := batch w @ [frame]\<rparr>)"
    by (rule latch_inv_cong [OF _ _ _ _ _ i]) simp_all
  with latch_inv_flushBatchLocked [OF j, of Write pool] show ?thesis
    by (simp add: writeLoop_received_def Let_def)
qed

lemma latch_inv_flush_exit:
  "latch_inv w \<Longrightarrow>
     latch_inv (fst (case FrameWriter5_flushBatchLocked Write (w, pool) of
                       (w', pool') \<Rightarrow> (w'\<lparr>loop_exited := True\<rparr>, pool')))"
  using latch_inv_flushBatchLocked [of w Write pool]
  by (cases "FrameWriter5_flushBatchLocked Write (w, pool)") (simp add: latch_inv_loop_exited)

lemma latch_inv_writeLoop_step:
  assumes i: "latch_inv w"
  shows "latch_inv (fst (writeLoop_step Write ev (w, pool)))"
proof (cases "loop_exited w")
  case True
  with i show ?thesis by (simp add: writeLoop_step_def)
next
  case False
  show ?thesis
  proof (cases "loop_inbox w")
    case (Some frame)
    from i have "latch_inv (w\<lparr>loop_inbox := None\<rparr>)" by (simp add: latch_inv_loop_inbox)
    from latch_inv_writeLoop_received [OF this, of Write frame pool] False Some i show ?thesis
      by (cases ev) (simp_all add: writeLoop_step_def)
  next
    case None
    show ?thesis
    proof (cases ev)
      case QueueReceive
      show ?thesis
      proof (cases "chan_recv w")
        case n: None
        with False None QueueReceive i latch_inv_flush_exit [OF i, of Write pool] show ?thesis
          by (simp add: writeLoop_step_def)
      next
        case s: (Some r)
        obtain frame w1 where r: "r = (frame, w1)" by (cases r)
        from latch_inv_chan_recv [OF i] s r have "latch_inv w1" by simp
        from latch_inv_writeLoop_received [OF this, of Write frame pool] False None QueueReceive s r
        show ?thesis by (simp add: writeLoop_step_def)
      qed
    next
      case BatchTick
      with False None i latch_inv_flushBatchLocked [OF i, of Write pool] show ?thesis
        by (simp add: writeLoop_step_def)
    next
      case (HeartbeatTick fo)
      show ?thesis
      proof (cases fo)
        case n: None
        with False None HeartbeatTick i show ?thesis by (simp add: writeLoop_step_def)
      next
        case s: (Some frame)
        have j: "latch_inv (w\<lparr>batch := batch w @ [frame]\<rparr>)"
          by (rule latch_inv_cong [OF _ _ _ _ _ i]) simp_all
        with False None HeartbeatTick s latch_inv_flushBatchLocked [OF j, of Write pool] show ?thesis
          by (simp add: writeLoop_step_def)
      qed
    next
      case DoneReceive
      with False None i latch_inv_flush_exit [OF i, of Write pool] show ?thesis
        by (simp add: writeLoop_step_def)
    qed
  qed
qed

lemma latch_inv_writer_step:
  assumes "latch_inv (fst st)"
  shows "latch_inv (fst (writer_step Write ev st))"
proof (cases st)
  case (Pair w pool)
  with assms have i: "latch_inv w" by simp
  show ?thesis
  proof (cases ev)
    case (Submit frame pick_send loop_waiting)
    with Pair latch_inv_WriteFrame [OF i] show ?thesis by (simp add: writer_step_def)
  next
    case CallFlush
    with Pair i latch_inv_Flush [OF i, of Write pool] show ?thesis
      by (cases "FrameWriter5_Flush Write (w, pool)") (auto simp add: writer_step_def)
  next
    case CallClose
    with Pair latch_inv_Close [OF i] show ?thesis by (simp add: writer_step_def)
  next
    case (CallSetWriteErrorHandler handler)
    with Pair latch_inv_SetWriteErrorHandler [OF i] show ?thesis by (simp add: writer_step_def)
  next
    case (Loop lev)
    with Pair latch_inv_writeLoop_step [OF i] show ?thesis by (simp add: writer_step_def)
  qed
qed

lemma latch_inv_run: "latch_inv (fst st) \<Longrightarrow> latch_inv (fst (run Write evs st))"
  unfolding run_def
  by (induction evs arbitrary: st) (simp_all add: latch_inv_writer_step)

lemma latch_inv_New: "latch_inv (NewFrameWriterWithConfig c mb qs)"
  by (simp add: latch_inv_def NewFrameWriterWithConfig_def)

lemma writeLoop_received_latched:
  assumes e: "errOnce w"
  shows "errOnce (fst (writeLoop_received Write frame (w, pool)))
       \<and> w_closed (fst (writeLoop_received Write frame (w, pool))) = w_closed w
       \<and> writeErr (fst (writeLoop_received Write frame (w, pool))) = writeErr w
       \<and> handler_calls (fst (writeLoop_received Write frame (w, pool))) = handler_calls w"
proof -
  have "errOnce (w\<lparr>batch := batch w @ [frame]\<rparr>)" using e by simp
  from flushBatchLocked_latched [OF this, of Write pool] e show ?thesis
    by (simp add: writeLoop_received_def Let_def)
qed

lemma flush_exit_latched:
  "errOnce w \<Longrightarrow>
     errOnce (fst (case FrameWriter5_flushBatchLocked Write (w, pool) of
                     (w', pool') \<Rightarrow> (w'\<lparr>loop_exited := True\<rparr>, pool')))
     \<and> w_closed (fst (case FrameWriter5_flushBatchLocked Write (w, pool) of
                     (w', pool') \<Rightarrow> (w'\<lparr>loop_exited := True\<rparr>, pool'))) = w_closed w
     \<and> writeErr (fst (case FrameWriter5_flushBatchLocked Write (w, pool) of
                     (w', pool') \<Rightarrow> (w'\<lparr>loop_exited := True\<rparr>, pool'))) = writeErr w
     \<and> handler_calls (fst (case FrameWriter5_flushBatchLocked Write (w, pool) of
                     (w', pool') \<Rightarrow> (w'\<lparr>loop_exited := True\<rparr>, pool'))) = handler_calls w"
  using flushBatchLocked_latched [of w Write pool]
  by (cases "FrameWriter5_flushBatchLocked Write (w, pool)") simp

lemma writeLoop_step_latched:
  assumes e: "errOnce w" and c: "w_closed w"
  shows "errOnce (fst (writeLoop_step Write ev (w, pool)))
       \<and> w_closed (fst (writeLoop_step Write ev (w, pool)))
       \<and> writeErr (fst (writeLoop_step Write ev (w, pool))) = writeErr w
       \<and> handler_calls (fst (writeLoop_step Write ev (w, pool))) = handler_calls w"
proof (cases "loop_exited w")
  case True
  with e c show ?thesis by (simp add: writeLoop_step_def)
next
  case False
  show ?thesis
  proof (cases "loop_inbox w")
    case (Some frame)
    from e have "errOnce (w\<lparr>loop_inbox := None\<rparr>)" by simp
    from writeLoop_received_latched [OF this, of Write frame pool] False Some e c show ?thesis
      by (cases ev) (simp_all add: writeLoop_step_def)
  next
    case None
    show ?thesis
    proof (cases ev)
      case QueueReceive
      show ?thesis
      proof (cases "chan_recv w")
        case n: None
        with False None QueueReceive e c flush_exit_latched [OF e, of Write pool] show ?thesis
          by (simp add: writeLoop_step_def)
      next
        case s: (Some r)
        obtain frame w1 where r: "r = (frame, w1)" by (cases r)
        from chan_recv_latch [of w frame w1] s r e c
        have e1: "errOnce w1" and k: "w_closed w1" "writeErr w1 = writeErr w"
          "handler_calls w1 = handler_calls w" by simp_all
        from writeLoop_received_latched [OF e1, of Write frame pool] k False None QueueReceive s r
        show ?thesis by (simp add: writeLoop_step_def)
      qed
    next
      case BatchTick
      with False None e c flushBatchLocked_latched [OF e, of Write pool] show ?thesis
        by (simp add: writeLoop_step_def)
    next
      case (HeartbeatTick fo)
      show ?thesis
      proof (cases fo)
        case n: None
        with False None HeartbeatTick e c show ?thesis by (simp add: writeLoop_step_def)
      next
        case s: (Some frame)
        have "errOnce (w\<lparr>batch := batch w @ [frame]\<rparr>)" using e by simp
        from flushBatchLocked_latched [OF this, of Write pool] False None HeartbeatTick s e c
        show ?thesis by (simp add: writeLoop_step_def)
      qed
    next
      case DoneReceive
      with False None e c flush_exit_latched [OF e, of Write pool] show ?thesis
        by (simp add: writeLoop_step_def)
    qed
  qed
qed

lemma writer_step_latched:
  assumes e: "errOnce (fst st)" and c: "w_closed (fst st)"
  shows "errOnce (fst (writer_step Write ev st))
       \<and> w_closed (fst (writer_step Write ev st))
       \<and> writeErr (fst (writer_step Write ev st)) = writeErr (fst st)
       \<and> handler_calls (fst (writer_step Write ev st)) = handler_calls (fst st)"
proof (cases st)
  case (Pair w pool)
  with e c have ew: "errOnce w" and cw: "w_closed w" by simp_all
  show ?thesis
  proof (cases ev)
    case (Submit frame pick_send loop_waiting)
    with Pair ew cw show ?thesis
      by (simp add: writer_step_def FrameWriter5_WriteFrame_def)
  next
    case CallFlush
    with Pair ew cw show ?thesis
      by (simp add: writer_step_def FrameWriter5_Flush_def)
  next
    case CallClose
    with Pair ew cw show ?thesis
      by (simp add: writer_step_def FrameWriter5_Close_def)
  next
    case (CallSetWriteErrorHandler handler)
    with Pair ew cw show ?thesis
      by (simp add: writer_step_def SetWriteErrorHandler_def)
  next
    case (Loop lev)
    with Pair writeLoop_step_latched [OF ew cw, of Write lev pool] show ?thesis
      by (simp add: writer_step_def)
  qed
qed

lemma run_latched:
  "errOnce (fst st) \<Longrightarrow> w_closed (fst st) \<Longrightarrow>
     errOnce (fst (run Write evs st))
     \<and> w_closed (fst (run Write evs st))
     \<and> writeErr (fst (run Write evs st)) = writeErr (fst st)
     \<and> handler_calls (fst (run Write evs st)) = handler_calls (fst st)"
  unfolding run_def
proof (induction evs arbitrary: st)
  case Nil
  then show ?case by simp
next
  case (Cons ev evs)
  note s = writer_step_latched [OF Cons.prems, of Write ev]
  from Cons.IH [of "writer_step Write ev st"] s show ?case by simp
qed

lemma WriteFrame_after_latch:
  "w_closed w \<Longrightarrow> writeErr w = Some err \<Longrightarrow>
     FrameWriter5_WriteFrame w frame pick_send loop_waiting = (Returned (Some err), w)"
  by (simp add: FrameWriter5_WriteFrame_def closed_error_def)

text \<open>
  Claim C4 as stated says that the first error of the sink is the one recorded. The latch
  takes the first error \<^verbatim>\<open>WriteFrame\<close> returns, and \<^verbatim>\<open>WriteFrame\<close> also fails,
  before it touches the sink, for a payload over 10 MiB. A writer with a broken sink that
  is given such a frame and then a small one flushes both in one batch: the error recorded
  and returned to later submissions is the size error of the first frame, not the error
  the sink returned for the second.
\<close>

theorem first_sink_error_not_latched_counterexample:
  "write_log (fst (run (broken_Write ''broken pipe'')
       [Submit \<lparr>Type = 5, Payload = Some (replicate 10485761 0), poolBuffer = None\<rparr> True False,
        Submit \<lparr>Type = 5, Payload = Some [7], poolBuffer = None\<rparr> True False,
        Loop QueueReceive, Loop QueueReceive, Loop BatchTick]
       (SetWriteErrorHandler (NewFrameWriterWithConfig () 128 1024) (Some (0 :: nat)), NewBufferPool)))
     = [Some (PayloadTooLarge 10485761), Some (FailedWriteLength ''broken pipe'')]
   \<and> writeErr (fst (run (broken_Write ''broken pipe'')
       [Submit \<lparr>Type = 5, Payload = Some (replicate 10485761 0), poolBuffer = None\<rparr> True False,
        Submit \<lparr>Type = 5, Payload = Some [7], poolBuffer = None\<rparr> True False,
        Loop QueueReceive, Loop QueueReceive, Loop BatchTick]
       (SetWriteErrorHandler (NewFrameWriterWithConfig () 128 1024) (Some (0 :: nat)), NewBufferPool)))
     = Some (PayloadTooLarge 10485761)
   \<and> fst (FrameWriter5_WriteFrame (fst (run (broken_Write ''broken pipe'')
       [Submit \<lparr>Type = 5, Payload = Some (replicate 10485761 0), poolBuffer = None\<rparr> True False,
        Submit \<lparr>Type = 5, Payload = Some [7], poolBuffer = None\<rparr> True False,
        Loop QueueReceive, Loop QueueReceive, Loop BatchTick]
       (SetWriteErrorHandler (NewFrameWriterWithConfig () 128 1024) (Some (0 :: nat)), NewBufferPool)))
       \<lparr>Type = 5, Payload = Some [7], poolBuffer = None\<rparr> True False)
     = Returned (Some (PayloadTooLarge 10485761))"
proof -
  let ?big = "\<lparr>Type = 5, Payload = Some (replicate 10485761 0), poolBuffer = None\<rparr>"
  let ?small = "\<lparr>Type = 5, Payload = Some [7], poolBuffer = None\<rparr>"
  let ?W = "broken_Write ''broken pipe'' :: unit Writer"
  let ?w0 = "SetWriteErrorHandler (NewFrameWriterWithConfig () 128 1024) (Some (0 :: nat))"
  have b: "WriteFrame ?W c ?big = (Some (PayloadTooLarge 10485761), c)" for c
    by (simp add: WriteFrame_def slice_len_def MaxFrameSize_def)
  have s: "WriteFrame ?W c ?small = (Some (FailedWriteLength ''broken pipe''), c)" for c
    by (simp add: WriteFrame_def slice_len_def MaxFrameSize_def broken_Write_def)
  have r: "run ?W [Submit ?big True False, Submit ?small True False, Loop QueueReceive, Loop QueueReceive,
                   Loop BatchTick] (?w0, NewBufferPool)
      = (?w0\<lparr>conn := (), write_log := [Some (PayloadTooLarge 10485761), Some (FailedWriteLength ''broken pipe'')],
             errOnce := True, writeErr := Some (PayloadTooLarge 10485761),
             handler_calls := [(0, PayloadTooLarge 10485761)], w_closed := True, batch := []\<rparr>,
         NewBufferPool)"
    by (simp add: run_def writer_step_def FrameWriter5_WriteFrame_def send_ready_def
        handoff_ready_def chan_send_def chan_recv_def writeLoop_step_def writeLoop_received_def
        FrameWriter5_flushBatchLocked_def flush_frame_def errOnce_Do_def Release_def b s
        SetWriteErrorHandler_def NewFrameWriterWithConfig_def Let_def)
  show ?thesis
    unfolding r
    by (simp add: FrameWriter5_WriteFrame_def closed_error_def SetWriteErrorHandler_def
        NewFrameWriterWithConfig_def)
qed

text \<open>
  Claim C4, amended (the first write error is latched). Starting from a writer whose latch
  is sound, as a new writer is, every sequence of submissions, flushes, closes, handler
  registrations and rounds of the loop leaves the latch sound: the recorded error is the
  first error that \<^verbatim>\<open>WriteFrame\<close> returned in any flush. A flush of a writer that has
  recorded no error records the first error of its batch, if there is one, closes the
  writer and starts the registered handler once with that error; without an error it
  records nothing and starts no handler. Once an error is recorded, whatever happens
  later the writer stays closed, the recorded error and the handler invocations stay as
  they are, and every submission returns that error.
\<close>

theorem first_write_error_latched:
  "latch_inv (fst st) \<longrightarrow>
     latch_inv (fst (run Write evs st))
     \<and> (\<not> errOnce (fst st) \<longrightarrow>
          (case first_error (flush_results Write (conn (fst st)) (batch (fst st))) of
             None \<Rightarrow>
               \<not> errOnce (fst (FrameWriter5_flushBatchLocked Write st))
               \<and> writeErr (fst (FrameWriter5_flushBatchLocked Write st)) = None
               \<and> handler_calls (fst (FrameWriter5_flushBatchLocked Write st)) = []
           | Some err \<Rightarrow>
               errOnce (fst (FrameWriter5_flushBatchLocked Write st))
               \<and> w_closed (fst (FrameWriter5_flushBatchLocked Write st))
               \<and> writeErr (fst (FrameWriter5_flushBatchLocked Write st)) = Some err
               \<and> handler_calls (fst (FrameWriter5_flushBatchLocked Write st)) =
                   (case onWriteError (fst st) of None \<Rightarrow> [] | Some h \<Rightarrow> [(h, err)])))
     \<and> (\<forall>err. writeErr (fst st) = Some err \<longrightarrow>
          errOnce (fst (run Write evs st))
          \<and> w_closed (fst (run Write evs st))
          \<and> writeErr (fst (run Write evs st)) = Some err
          \<and> handler_calls (fst (run Write evs st)) = handler_calls (fst st)
          \<and> FrameWriter5_WriteFrame (fst (run Write evs st)) frame pick_send loop_waiting
              = (Returned (Some err), fst (run Write evs st)))"
proof (intro impI conjI allI)
  assume i: "latch_inv (fst st)"
  show "latch_inv (fst (run Write evs st))" using i by (rule latch_inv_run)
  {
    assume n: "\<not> errOnce (fst st)"
    obtain w pool where st: "st = (w, pool)" by (cases st)
    obtain w' pool' where f: "FrameWriter5_flushBatchLocked Write (w, pool) = (w', pool')" by force
    from i n st have u: "writeErr w = None \<and> handler_calls w = []"
      using latch_inv_unlatched [of w] by simp
    from flushBatchLocked_effect [OF f] n st u
    show "case first_error (flush_results Write (conn (fst st)) (batch (fst st))) of
             None \<Rightarrow>
               \<not> errOnce (fst (FrameWriter5_flushBatchLocked Write st))
               \<and> writeErr (fst (FrameWriter5_flushBatchLocked Write st)) = None
               \<and> handler_calls (fst (FrameWriter5_flushBatchLocked Write st)) = []
           | Some err \<Rightarrow>
               errOnce (fst (FrameWriter5_flushBatchLocked Write st))
               \<and> w_closed (fst (FrameWriter5_flushBatchLocked Write st))
               \<and> writeErr (fst (FrameWriter5_flushBatchLocked Write st)) = Some err
               \<and> handler_calls (fst (FrameWriter5_flushBatchLocked Write st)) =
                   (case onWriteError (fst st) of None \<Rightarrow> [] | Some h \<Rightarrow> [(h, err)])"
      by (simp add: f split: option.splits)
  }
  fix err
  assume w: "writeErr (fst st) = Some err"
  with i have e: "errOnce (fst st)" and c: "w_closed (fst st)"
    by (auto simp add: latch_inv_def)
  note r = run_latched [OF e c, of Write evs]
  from r show "errOnce (fst (run Write evs st))" by simp
  from r show "w_closed (fst (run Write evs st))" by simp
  from r w show we: "writeErr (fst (run Write evs st)) = Some err" by simp
  from r show "handler_calls (fst (run Write evs st)) = handler_calls (fst st)" by simp
  from r have "w_closed (fst (run Write evs st))" by simp
  from WriteFrame_after_latch [OF this we]
  show "FrameWriter5_WriteFrame (fst (run Write evs st)) frame pick_send loop_waiting
              = (Returned (Some err), fst (run Write evs st))" .
qed

theorem first_write_error_latched_witness:
  "latch_inv ((NewFrameWriterWithConfig () 128 1024 :: (unit, nat) FrameWriter)
       \<lparr>onWriteError := Some 0, batch := [\<lparr>Type = 5, Payload = Some [7], poolBuffer = None\<rparr>]\<rparr>)
   \<and> writeErr (fst (FrameWriter5_flushBatchLocked (broken_Write ''broken pipe'')
        ((NewFrameWriterWithConfig () 128 1024 :: (unit, nat) FrameWriter)
           \<lparr>onWriteError := Some 0, batch := [\<lparr>Type = 5, Payload = Some [7], poolBuffer = None\<rparr>]\<rparr>,
         NewBufferPool)))
      = Some (FailedWriteLength ''broken pipe'')
   \<and> handler_calls (fst (FrameWriter5_flushBatchLocked (broken_Write ''broken pipe'')
        ((NewFrameWriterWithConfig () 128 1024 :: (unit, nat) FrameWriter)
           \<lparr>onWriteError := Some 0, batch := [\<lparr>Type = 5, Payload = Some [7], poolBuffer = None\<rparr>]\<rparr>,
         NewBufferPool)))
      = [(0, FailedWriteLength ''broken pipe'')]
   \<and> fst (FrameWriter5_WriteFrame
        (fst (run (broken_Write ''broken pipe'')
           [Loop (HeartbeatTick (Some \<lparr>Type = 3, Payload = None, poolBuffer = None\<rparr>)), CallFlush]
           (FrameWriter5_flushBatchLocked (broken_Write ''broken pipe'')
              ((NewFrameWriterWithConfig () 128 1024 :: (unit, nat) FrameWriter)
                 \<lparr>onWriteError := Some 0, batch := [\<lparr>Type = 5, Payload = Some [7], poolBuffer = None\<rparr>]\<rparr>,
               NewBufferPool))))
        \<lparr>Type = 5, Payload = Some [7], poolBuffer = None\<rparr> True False)
      = Returned (Some (FailedWriteLength ''broken pipe''))
   \<and> handler_calls
        (fst (run (broken_Write ''broken pipe'')
           [Loop (HeartbeatTick (Some \<lparr>Type = 3, Payload = None, poolBuffer = None\<rparr>)), CallFlush]
           (FrameWriter5_flushBatchLocked (broken_Write ''broken pipe'')
              ((NewFrameWriterWithConfig () 128 1024 :: (unit, nat) FrameWriter)
                 \<lparr>onWriteError := Some 0, batch := [\<lparr>Type = 5, Payload = Some [7], poolBuffer = None\<rparr>]\<rparr>,
               NewBufferPool))))
      = [(0, FailedWriteLength ''broken pipe'')]"
proof -
  let ?small = "\<lparr>Type = 5, Payload = Some [7], poolBuffer = None\<rparr>"
  let ?hb = "\<lparr>Type = 3, Payload = None, poolBuffer = None\<rparr>"
  let ?W = "broken_Write ''broken pipe'' :: unit Writer"
  let ?w = "(NewFrameWriterWithConfig () 128 1024 :: (unit, nat) FrameWriter)
       \<lparr>onWriteError := Some 0, batch := [?small]\<rparr>"
  let ?st = "(?w, NewBufferPool)"
  let ?st' = "FrameWriter5_flushBatchLocked ?W ?st"
  let ?evs = "[Loop (HeartbeatTick (Some ?hb)), CallFlush]"
  have i: "latch_inv (fst ?st)"
    by (simp add: latch_inv_def NewFrameWriterWithConfig_def)
  have n: "\<not> errOnce (fst ?st)" by (simp add: NewFrameWriterWithConfig_def)
  have fr: "first_error (flush_results ?W (conn (fst ?st)) (batch (fst ?st)))
      = Some (FailedWriteLength ''broken pipe'')"
    by (simp add: WriteFrame_def slice_len_def MaxFrameSize_def broken_Write_def)
  have h: "onWriteError (fst ?st) = Some 0" by simp
  from first_write_error_latched [of ?st ?W "[]" ?small True False] i n fr h
  have a: "writeErr (fst ?st') = Some (FailedWriteLength ''broken pipe'')"
    and b: "handler_calls (fst ?st') = [(0, FailedWriteLength ''broken pipe'')]"
    by simp_all
  from first_write_error_latched [of ?st ?W "[Loop BatchTick]" ?small True False] i
  have "latch_inv (fst (run ?W [Loop BatchTick] ?st))" by simp
  moreover have "run ?W [Loop BatchTick] ?st = ?st'"
    by (simp add: run_def writer_step_def writeLoop_step_def NewFrameWriterWithConfig_def)
  ultimately have i': "latch_inv (fst ?st')" by simp
  from first_write_error_latched [of ?st' ?W ?evs ?small True False] i' a b
  have c: "fst (FrameWriter5_WriteFrame (fst (run ?W ?evs ?st')) ?small True False)
       = Returned (Some (FailedWriteLength ''broken pipe''))"
    and d: "handler_calls (fst (run ?W ?evs ?st')) = [(0, FailedWriteLength ''broken pipe'')]"
    by simp_all
  from i a b c d show ?thesis by simp
qed

subsection \<open>Submissions to a full queue\<close>













end
